theory Spec2Isabelle
  imports Main "HOL-Library.AList"
begin

section \<open>JavaScript values\<close>

text \<open>
  The queue service is JavaScript: requests, payloads, callbacks and the values a backend
  hands back are untyped. They are modelled by one datatype. Numbers are integers (the code
  only looks at lengths and truthiness), strings are ASCII byte strings, an object is the
  list of its own properties in insertion order, and a function is an opaque token.
\<close>

datatype jsval =
    JUndefined
  | JNull
  | JBool bool
  | JNum int
  | JStr string
  | JArr "jsval list"
  | JObj "(string \<times> jsval) list"
  | JFun nat

text \<open>Truthiness: what \<^verbatim>\<open>if (v)\<close>, \<^verbatim>\<open>!v\<close> and \<^verbatim>\<open>a || b\<close> test.\<close>

fun truthy :: "jsval \<Rightarrow> bool" where
  "truthy JUndefined = False"
| "truthy JNull = False"
| "truthy (JBool b) = b"
| "truthy (JNum n) = (n \<noteq> 0)"
| "truthy (JStr s) = (s \<noteq> [])"
| "truthy (JArr xs) = True"
| "truthy (JObj kvs) = True"
| "truthy (JFun f) = True"

fun typeof :: "jsval \<Rightarrow> string" where
  "typeof JUndefined = ''undefined''"
| "typeof JNull = ''object''"
| "typeof (JBool b) = ''boolean''"
| "typeof (JNum n) = ''number''"
| "typeof (JStr s) = ''string''"
| "typeof (JArr xs) = ''object''"
| "typeof (JObj kvs) = ''object''"
| "typeof (JFun f) = ''function''"

text \<open>\<^verbatim>\<open>v instanceof Array\<close>.\<close>

fun instanceofArray :: "jsval \<Rightarrow> bool" where
  "instanceofArray (JArr xs) = True"
| "instanceofArray v = False"

text \<open>
  \<^verbatim>\<open>Object.keys(v).length\<close>. The code evaluates it only behind the guards
  \<^verbatim>\<open>!v || typeof v !== "object"\<close>, hence on arrays and objects.
\<close>

fun Object_keys_length :: "jsval \<Rightarrow> nat" where
  "Object_keys_length (JObj kvs) = length kvs"
| "Object_keys_length (JArr xs) = length xs"
| "Object_keys_length (JStr s) = length s"
| "Object_keys_length v = 0"

text \<open>
  Property read \<^verbatim>\<open>v.name\<close>: an own property of an object, \<^verbatim>\<open>length\<close> of an array or
  a string, \<^verbatim>\<open>undefined\<close> otherwise. Every read in the code is guarded by a truthiness
  test of \<^verbatim>\<open>v\<close>, so the TypeError of reading a property of \<^verbatim>\<open>null\<close> or
  \<^verbatim>\<open>undefined\<close> never arises.
\<close>

fun get_prop :: "jsval \<Rightarrow> string \<Rightarrow> jsval" where
  "get_prop (JObj kvs) name = (case map_of kvs name of Some v \<Rightarrow> v | None \<Rightarrow> JUndefined)"
| "get_prop (JArr xs) name = (if name = ''length'' then JNum (int (length xs)) else JUndefined)"
| "get_prop (JStr s) name = (if name = ''length'' then JNum (int (length s)) else JUndefined)"
| "get_prop v name = JUndefined"

text \<open>
  Property write \<^verbatim>\<open>obj.name = v\<close> on an object: an existing property keeps its place,
  a new one is appended.
\<close>

fun set_prop :: "jsval \<Rightarrow> string \<Rightarrow> jsval \<Rightarrow> jsval" where
  "set_prop (JObj kvs) name v = JObj (AList.update name v kvs)"
| "set_prop u name v = u"

text \<open>\<^verbatim>\<open>Object.assign({}, src)\<close>: a fresh object with the own properties of \<^verbatim>\<open>src\<close>.\<close>

fun Object_assign_empty :: "jsval \<Rightarrow> jsval" where
  "Object_assign_empty (JObj kvs) = JObj kvs"
| "Object_assign_empty v = JObj []"

text \<open>The elements of an array value; the string a string value holds.\<close>

fun array_items :: "jsval \<Rightarrow> jsval list" where
  "array_items (JArr xs) = xs"
| "array_items v = []"

fun the_string :: "jsval \<Rightarrow> string" where
  "the_string (JStr s) = s"
| "the_string v = []"

text \<open>\<^verbatim>\<open>Array.prototype.indexOf\<close>: the first index holding the value, or \<open>-1\<close>.\<close>

fun indexOf :: "'a list \<Rightarrow> 'a \<Rightarrow> int" where
  "indexOf [] v = - 1"
| "indexOf (x # xs) v =
     (if x = v then 0 else (let i = indexOf xs v in if i = - 1 then - 1 else i + 1))"

text \<open>\<^verbatim>\<open>String.prototype.trim\<close> and \<^verbatim>\<open>toLowerCase\<close> on ASCII.\<close>

definition is_space :: "char \<Rightarrow> bool" where
  "is_space c = (c \<in> set [CHR 0x20, CHR 0x09, CHR 0x0A, CHR 0x0B, CHR 0x0C, CHR 0x0D])"

definition trim :: "string \<Rightarrow> string" where
  "trim s = rev (dropWhile is_space (rev (dropWhile is_space s)))"

definition lower_char :: "char \<Rightarrow> char" where
  "lower_char c =
     (case map_of (zip ''ABCDEFGHIJKLMNOPQRSTUVWXYZ'' ''abcdefghijklmnopqrstuvwxyz'') c of
        Some d \<Rightarrow> d
      | None \<Rightarrow> c)"

definition toLowerCase :: "string \<Rightarrow> string" where
  "toLowerCase s = map lower_char s"

section \<open>The environment: backend adapter and clock\<close>

text \<open>
  The Redis driver (\<^verbatim>\<open>./redis_io\<close>) is an external collaborator. The core reaches it
  through four callback-style operations; each is modelled as a function from the backend's
  state to the pair \<open>(err, response)\<close> it passes to its callback and the new state. The
  adapter is a parameter of everything below, so a theorem stated for an arbitrary adapter
  holds whatever the driver does, including when it reports errors.
\<close>

record 's adapter =
  getHashObject :: "string \<Rightarrow> string \<Rightarrow> 's \<Rightarrow> (jsval \<times> jsval) \<times> 's"
  setHashObject :: "string \<Rightarrow> string \<Rightarrow> jsval \<Rightarrow> 's \<Rightarrow> (jsval \<times> jsval) \<times> 's"
  getHashKey :: "string \<Rightarrow> 's \<Rightarrow> (jsval \<times> string list option) \<times> 's"
  deleteHashKey :: "string \<Rightarrow> string \<Rightarrow> 's \<Rightarrow> (jsval \<times> jsval) \<times> 's"

text \<open>
  The world outside an instance: the backend's state and the number of times the wall
  clock has been read. \<^verbatim>\<open>moment(new Date()).format("YYYY-MM-DDTHH:mm:ss")\<close> is the
  parameter \<open>clock\<close>: its \<open>n\<close>-th reading returns \<open>clock n\<close>.
\<close>

record 's world =
  backend :: 's
  ticks :: nat

definition moment_now :: "(nat \<Rightarrow> string) \<Rightarrow> 's world \<Rightarrow> jsval \<times> 's world" where
  "moment_now clock w = (JStr (clock (ticks w)), w\<lparr>ticks := Suc (ticks w)\<rparr>)"

section \<open>ValidateStoreFields.js\<close>

text \<open>
  \<^verbatim>\<open>validateQueueFields(fields, callback, skipFields)\<close> (\<open>flds\<close> is \<^verbatim>\<open>fields\<close>): \<open>Inl\<close> is the thrown error,
  \<open>Inr\<close> the returned value (a message, or \<^verbatim>\<open>false\<close> when the fields are valid).
\<close>

definition validateQueueFields :: "jsval \<Rightarrow> jsval \<Rightarrow> jsval \<Rightarrow> jsval + jsval" where
  "validateQueueFields flds callback skipFields =
     (if callback = JUndefined \<or> typeof callback \<noteq> ''function'' then
        Inl (JStr ''Callback is expected and must be a function'')
      else if \<not> truthy flds \<or> typeof flds \<noteq> ''object'' \<or> Object_keys_length flds = 0 then
        Inr (JStr '''Queue data' is either missing or not in the specified format'')
      else if \<not> truthy (get_prop flds ''identifier'')
              \<or> typeof (get_prop flds ''identifier'') \<noteq> ''string''
              \<or> trim (the_string (get_prop flds ''identifier'')) = [] then
        Inr (JStr '''Identifier' is either missing or not in the specified format'')
      else if ((truthy skipFields \<and> \<not> truthy (get_prop skipFields ''key'')) \<or> skipFields = JUndefined)
              \<and> (\<not> truthy (get_prop flds ''key'')
                   \<or> typeof (get_prop flds ''key'') \<noteq> ''string''
                   \<or> trim (the_string (get_prop flds ''key'')) = []) then
        Inr (JStr '''Key' is either missing or not in the specified format'')
      else if get_prop flds ''store'' \<noteq> JUndefined
              \<and> (\<not> instanceofArray (get_prop flds ''store'')
                   \<or> length (array_items (get_prop flds ''store'')) = 0) then
        Inr (JStr '''Store' value is either blank or not in the specified format'')
      else Inr (JBool False))"

section \<open>index.js: the instance and its construction\<close>

text \<open>
  \<^verbatim>\<open>this.connectionHandler\<close> starts as \<^verbatim>\<open>{}\<close> and only ever receives the property
  \<^verbatim>\<open>redis\<close> (every recognised store name lower-cases to it): it is modelled by that
  property, \<open>None\<close> while it is unassigned. \<^verbatim>\<open>this.redisReadDate\<close> is not assigned by
  the constructor: it starts \<^verbatim>\<open>undefined\<close>.
\<close>

record 's RegistrationEntry =
  connection :: "'s adapter"
  serviceName :: string
  identifierSet :: "string list"

record 's QueueHandler =
  connectionHandler :: "'s RegistrationEntry option"
  servicesInfo :: string
  redisReadDate :: jsval

text \<open>
  One validated store configuration (\<^verbatim>\<open>validation.elements[serviceStore]\<close>) and the
  result of the external \<^verbatim>\<open>validator.paramsValidator\<close>.
\<close>

record BackendConfig =
  queueConnector :: jsval
  cfg_serviceName :: string
  cfg_identifierSet :: "string list"

record validation =
  success :: bool
  errorMsg :: jsval
  elements :: "(string \<times> BackendConfig) list"

text \<open>
  \<^verbatim>\<open>async.waterfall\<close> runs its tasks in order and jumps to its final callback at the first
  truthy error; \<^verbatim>\<open>async.each\<close>/\<^verbatim>\<open>eachOf\<close> call their final callback at the first truthy
  error or after the last item. When the adapter calls back is the adapter's choice, and
  the construction is modelled for both choices. Here it runs over an adapter that calls
  back before its operation returns: a backend call completes before the next statement, so
  every callback runs inside \<^verbatim>\<open>new\<close>, and the \<^verbatim>\<open>throw\<close> of the final callback ends the
  construction. The construction over an adapter that replies on a later tick follows
  further down. The operations are modelled over an adapter of the first kind.

  \<open>registerIdentifiers\<close> is the inner \<^verbatim>\<open>async.each\<close> over \<^verbatim>\<open>value.identifierSet\<close>;
  \<open>acc\<close> is \<^verbatim>\<open>this.connectionHandler.redis.identifierSet\<close>. \<open>Inl err\<close>: the error
  that reaches \<^verbatim>\<open>throw new Error(err)\<close>.
\<close>

fun registerIdentifiers ::
  "'s adapter \<Rightarrow> string \<Rightarrow> string \<Rightarrow> jsval \<Rightarrow> string list \<Rightarrow> string list \<Rightarrow> 's
    \<Rightarrow> (jsval + string list) \<times> 's" where
  "registerIdentifiers conn info sname date [] acc s = (Inr acc, s)"
| "registerIdentifiers conn info sname date (identifierName # rest) acc s =
     (if trim identifierName = [] then registerIdentifiers conn info sname date rest acc s
      else
        (case getHashObject conn info (sname @ ''_'' @ trim identifierName) s of
           ((err, result), s1) \<Rightarrow>
             if truthy err then (Inl err, s1)
             else if truthy result then
               registerIdentifiers conn info sname date rest (acc @ [trim identifierName]) s1
             else
               (case setHashObject conn info (sname @ ''_'' @ trim identifierName) date s1 of
                  ((err2, status), s2) \<Rightarrow>
                    registerIdentifiers conn info sname date rest (acc @ [trim identifierName]) s2)))"

text \<open>
  The outer \<^verbatim>\<open>async.eachOf\<close> over \<^verbatim>\<open>validation.elements\<close>. \<open>cur\<close> is
  \<^verbatim>\<open>this.connectionHandler\<close> so far.
\<close>

fun registerStores ::
  "(jsval \<Rightarrow> 's adapter) \<Rightarrow> string \<Rightarrow> jsval \<Rightarrow> (string \<times> BackendConfig) list
    \<Rightarrow> 's RegistrationEntry option \<Rightarrow> 's \<Rightarrow> (jsval + 's RegistrationEntry option) \<times> 's" where
  "registerStores redisOperation info date [] cur s = (Inr cur, s)"
| "registerStores redisOperation info date ((serviceStore, val) # rest) cur s =
     (if toLowerCase serviceStore = ''redis'' then
        (case registerIdentifiers (redisOperation (queueConnector val)) info
                (cfg_serviceName val) date (cfg_identifierSet val) [] s of
           (Inl err, s1) \<Rightarrow> (Inl err, s1)
         | (Inr ids, s1) \<Rightarrow>
             registerStores redisOperation info date rest
               (Some \<lparr>connection = redisOperation (queueConnector val),
                      serviceName = cfg_serviceName val, identifierSet = ids\<rparr>) s1)
      else (Inl (JStr ''Not a valid queue store''), s))"

text \<open>
  \<^verbatim>\<open>new QueueHandler(connectionConfig)\<close> over such an adapter. \<open>validation\<close> is what the
  external validator returned for \<open>connectionConfig\<close>. \<open>Inl\<close>: the constructor threw and no
  instance exists.
\<close>

definition QueueHandler_constructor ::
  "(jsval \<Rightarrow> 's adapter) \<Rightarrow> (nat \<Rightarrow> string) \<Rightarrow> jsval \<Rightarrow> validation \<Rightarrow> 's world
    \<Rightarrow> (jsval + 's QueueHandler) \<times> 's world" where
  "QueueHandler_constructor redisOperation clock connectionConfig validation w =
     (if \<not> truthy connectionConfig \<or> typeof connectionConfig \<noteq> ''object''
         \<or> instanceofArray connectionConfig \<or> Object_keys_length connectionConfig = 0 then
        (Inl (JStr '''Connection config' is either missing or not in the specified format''), w)
      else if \<not> success validation then (Inl (errorMsg validation), w)
      else if length (elements validation) = 0 then
        (Inl (JStr ''Minimum one valid queue store is required''), w)
      else
        (case moment_now clock w of
           (date, w1) \<Rightarrow>
             (case registerStores redisOperation ''registeredServices'' date
                     (elements validation) None (backend w1) of
                (Inl err, s) \<Rightarrow> (Inl err, w1\<lparr>backend := s\<rparr>)
              | (Inr handler, s) \<Rightarrow>
                  (Inr \<lparr>connectionHandler = handler, servicesInfo = ''registeredServices'',
                        redisReadDate = JUndefined\<rparr>,
                   w1\<lparr>backend := s\<rparr>))))"

text \<open>
  The same construction over an adapter that replies on a later tick, as a network driver
  does. Inside \<^verbatim>\<open>new\<close> both loops run to their end without any callback of the adapter
  having run: for every non-blank identifier the trimmed name is pushed and the lookup is
  issued. \<open>issueLookups\<close> is that pass of the inner \<^verbatim>\<open>async.each\<close>; the backend serves
  the lookups in the order they were issued, and \<open>pend\<close> collects, for each, the field asked
  for and the \<open>(err, response)\<close> its callback will receive.
\<close>

type_synonym lookup = "string \<times> jsval \<times> jsval"

fun issueLookups ::
  "'s adapter \<Rightarrow> string \<Rightarrow> string \<Rightarrow> string list \<Rightarrow> string list \<Rightarrow> lookup list \<Rightarrow> 's
    \<Rightarrow> (string list \<times> lookup list) \<times> 's" where
  "issueLookups conn info sname [] acc pend s = ((acc, pend), s)"
| "issueLookups conn info sname (identifierName # rest) acc pend s =
     (if trim identifierName = [] then issueLookups conn info sname rest acc pend s
      else
        (case getHashObject conn info (sname @ ''_'' @ trim identifierName) s of
           ((err, result), s1) \<Rightarrow>
             issueLookups conn info sname rest (acc @ [trim identifierName])
               (pend @ [(sname @ ''_'' @ trim identifierName, err, result)]) s1))"

text \<open>
  The pass of the outer \<^verbatim>\<open>async.eachOf\<close> inside \<^verbatim>\<open>new\<close>. An unrecognised store name
  calls \<^verbatim>\<open>asyncEachCallback\<close> with the message at once, so the final callback throws while
  the constructor is still running: the first component is that error, \<open>None\<close> when the
  loop ended without one.
\<close>

fun issueStores ::
  "(jsval \<Rightarrow> 's adapter) \<Rightarrow> string \<Rightarrow> (string \<times> BackendConfig) list
    \<Rightarrow> 's RegistrationEntry option \<Rightarrow> lookup list \<Rightarrow> 's
    \<Rightarrow> (jsval option \<times> 's RegistrationEntry option \<times> lookup list) \<times> 's" where
  "issueStores redisOperation info [] cur pend s = ((None, cur, pend), s)"
| "issueStores redisOperation info ((serviceStore, val) # rest) cur pend s =
     (if toLowerCase serviceStore = ''redis'' then
        (case issueLookups (redisOperation (queueConnector val)) info (cfg_serviceName val)
                (cfg_identifierSet val) [] pend s of
           ((ids, pend1), s1) \<Rightarrow>
             issueStores redisOperation info rest
               (Some \<lparr>connection = redisOperation (queueConnector val),
                      serviceName = cfg_serviceName val, identifierSet = ids\<rparr>) pend1 s1)
      else ((Some (JStr ''Not a valid queue store''), cur, pend), s))"

text \<open>
  The callbacks of the lookups, run after \<^verbatim>\<open>new\<close> has returned, in the order of the
  replies. A truthy error travels through the waterfall and both loops to the final callback
  of the outer one; unless that callback has run already (\<open>fired\<close>), it throws there, with no
  caller to catch it: the result is that uncaught error, and what the process does after it
  is not modelled. A truthy response needs nothing more. Otherwise the second waterfall task
  writes the timestamp through \<^verbatim>\<open>this.connectionHandler.redis.connection\<close> as it is by
  then (\<open>conn\<close>), and passes \<^verbatim>\<open>null\<close> on whatever the write reported.
\<close>

fun handleReplies ::
  "'s adapter \<Rightarrow> string \<Rightarrow> jsval \<Rightarrow> bool \<Rightarrow> lookup list \<Rightarrow> 's \<Rightarrow> jsval option \<times> 's" where
  "handleReplies conn info date fired [] s = (None, s)"
| "handleReplies conn info date fired ((fld, err, result) # rest) s =
     (if truthy err then
        (if fired then handleReplies conn info date fired rest s else (Some err, s))
      else if truthy result then handleReplies conn info date fired rest s
      else
        (case setHashObject conn info fld date s of
           ((err2, status), s1) \<Rightarrow> handleReplies conn info date fired rest s1))"

text \<open>
  \<^verbatim>\<open>new QueueHandler(connectionConfig)\<close> over such an adapter: \<open>produced\<close> is what
  \<^verbatim>\<open>new\<close> itself does (\<open>Inl\<close>: it threw; \<open>Inr\<close>: it returned the instance), \<open>uncaught\<close> the
  error thrown afterwards from a callback, if any. Lookups are only issued through an entry
  of \<^verbatim>\<open>this.connectionHandler\<close>, so without an entry there is no reply to handle.
\<close>

record 's construction =
  produced :: "jsval + 's QueueHandler"
  uncaught :: "jsval option"

definition QueueHandler_constructor_later ::
  "(jsval \<Rightarrow> 's adapter) \<Rightarrow> (nat \<Rightarrow> string) \<Rightarrow> jsval \<Rightarrow> validation \<Rightarrow> 's world
    \<Rightarrow> 's construction \<times> 's world" where
  "QueueHandler_constructor_later redisOperation clock connectionConfig validation w =
     (if \<not> truthy connectionConfig \<or> typeof connectionConfig \<noteq> ''object''
         \<or> instanceofArray connectionConfig \<or> Object_keys_length connectionConfig = 0 then
        (\<lparr>produced = Inl (JStr '''Connection config' is either missing or not in the specified format''),
          uncaught = None\<rparr>, w)
      else if \<not> success validation then (\<lparr>produced = Inl (errorMsg validation), uncaught = None\<rparr>, w)
      else if length (elements validation) = 0 then
        (\<lparr>produced = Inl (JStr ''Minimum one valid queue store is required''), uncaught = None\<rparr>, w)
      else
        (case moment_now clock w of
           (date, w1) \<Rightarrow>
             (case issueStores redisOperation ''registeredServices'' (elements validation) None []
                     (backend w1) of
                ((thrown, handler, pend), s1) \<Rightarrow>
                  (case (case handler of
                           None \<Rightarrow> (None, s1)
                         | Some entry \<Rightarrow>
                             handleReplies (connection entry) ''registeredServices'' date
                               (thrown \<noteq> None) pend s1) of
                     (later, s2) \<Rightarrow>
                       (\<lparr>produced =
                           (case thrown of
                              Some e \<Rightarrow> Inl e
                            | None \<Rightarrow>
                                Inr \<lparr>connectionHandler = handler,
                                     servicesInfo = ''registeredServices'',
                                     redisReadDate = JUndefined\<rparr>),
                         uncaught = later\<rparr>,
                        w1\<lparr>backend := s2\<rparr>)))))"

section \<open>index.js: the operations\<close>

text \<open>
  What a call does towards its caller: it throws, it calls the callback with
  \<open>(err, result)\<close> (a missing argument is \<^verbatim>\<open>undefined\<close>), or it returns a value without
  calling back.
\<close>

datatype outcome = Throws jsval | Callback jsval jsval | Returns jsval

fun callback_args :: "outcome \<Rightarrow> jsval \<times> jsval" where
  "callback_args (Callback err result) = (err, result)"
| "callback_args out = (JUndefined, JUndefined)"

text \<open>
  The store filter of every iteratee:
  \<^verbatim>\<open>data.store !== undefined && data.store.indexOf(serviceStore.toLowerCase()) === -1\<close>.
  It runs after validation, so a defined \<^verbatim>\<open>store\<close> is an array.
\<close>

definition storeExcludes :: "jsval \<Rightarrow> string \<Rightarrow> bool" where
  "storeExcludes store serviceStore =
     (store \<noteq> JUndefined \<and> indexOf (array_items store) (JStr (toLowerCase serviceStore)) = - 1)"

definition notRegistered :: "string \<Rightarrow> jsval" where
  "notRegistered ident =
     JStr (''This service is not registered with redis store for the '' @ [CHR 0x27] @ ident
           @ [CHR 0x27] @ '' identifier'')"

text \<open>
  The error the final callback of \<^verbatim>\<open>async.eachOf\<close> receives when its only iteratee
  reported \<open>err\<close>: the error itself when truthy, \<^verbatim>\<open>null\<close> otherwise.
\<close>

definition firstError :: "jsval \<Rightarrow> jsval" where
  "firstError err = (if truthy err then err else JNull)"

subsection \<open>pushToQueue\<close>

text \<open>The iteratee for the \<^verbatim>\<open>redis\<close> entry: the error it reports and the backend after it.\<close>

definition pushLeg :: "'s RegistrationEntry \<Rightarrow> jsval \<Rightarrow> 's \<Rightarrow> jsval \<times> 's" where
  "pushLeg val queueData s =
     (if storeExcludes (get_prop queueData ''store'') ''redis'' then (JNull, s)
      else if indexOf (identifierSet val) (the_string (get_prop queueData ''identifier'')) = - 1 then
        (notRegistered (the_string (get_prop queueData ''identifier'')), s)
      else
        (case setHashObject (connection val) (the_string (get_prop queueData ''identifier''))
                (the_string (get_prop queueData ''key'')) (get_prop queueData ''value'') s of
           ((err, status), s1) \<Rightarrow> (err, s1)))"

text \<open>The tail of \<^verbatim>\<open>pushToQueue\<close> that reports a validation message.\<close>

definition pushFail :: "jsval \<Rightarrow> jsval \<Rightarrow> 's world \<Rightarrow> outcome \<times> 's world" where
  "pushFail errMsg callback w =
     (if callback \<noteq> JUndefined then (Callback errMsg JNull, w) else (Throws errMsg, w))"

text \<open>
  The final callback of the fan-out in \<^verbatim>\<open>pushToQueue\<close>, seen from the caller. Without a
  callback and without an error the final callback returns \<^verbatim>\<open>true\<close> to
  \<^verbatim>\<open>async.eachOf\<close>, and \<^verbatim>\<open>pushToQueue\<close> itself returns \<^verbatim>\<open>undefined\<close>.
\<close>

definition pushDone :: "jsval \<Rightarrow> jsval \<Rightarrow> 's world \<Rightarrow> outcome \<times> 's world" where
  "pushDone err callback w =
     (if callback \<noteq> JUndefined then (Callback err JUndefined, w)
      else if truthy err then (Throws err, w)
      else (Returns JUndefined, w))"

definition pushToQueue ::
  "'s QueueHandler \<Rightarrow> jsval \<Rightarrow> jsval \<Rightarrow> 's world \<Rightarrow> outcome \<times> 's world" where
  "pushToQueue h queueData callback w =
     (case validateQueueFields queueData callback JUndefined of
        Inl thrown \<Rightarrow> (Throws thrown, w)
      | Inr validInsertFields \<Rightarrow>
          if truthy validInsertFields then pushFail validInsertFields callback w
          else if \<not> truthy (get_prop queueData ''value'')
                  \<or> typeof (get_prop queueData ''value'') \<noteq> ''object''
                  \<or> Object_keys_length (get_prop queueData ''value'') = 0 then
            pushFail (JStr '''Value' is either missing or not in the specified format'') callback w
          else if \<not> truthy (get_prop (get_prop queueData ''value'') ''targetType'')
                  \<or> \<not> instanceofArray (get_prop (get_prop queueData ''value'') ''targetType'')
                  \<or> length (array_items (get_prop (get_prop queueData ''value'') ''targetType'')) = 0 then
            pushFail (JStr '''Target type' is either missing or not in the specified format'')
              callback w
          else
            (case connectionHandler h of
               None \<Rightarrow> pushDone JNull callback w
             | Some val \<Rightarrow>
                 (case pushLeg val queueData (backend w) of
                    (err, s) \<Rightarrow> pushDone (firstError err) callback (w\<lparr>backend := s\<rparr>))))"

subsection \<open>readFromQueue\<close>

text \<open>
  The iteratee for the \<^verbatim>\<open>redis\<close> entry with its waterfall: the error it reports, the
  \<^verbatim>\<open>result\<close> object after it, and the world after it. The second waterfall task passes
  \<^verbatim>\<open>null\<close> on whatever \<^verbatim>\<open>setHashObject\<close> reported.
\<close>

definition readLeg ::
  "'s QueueHandler \<Rightarrow> (nat \<Rightarrow> string) \<Rightarrow> 's RegistrationEntry \<Rightarrow> jsval \<Rightarrow> jsval \<Rightarrow> 's world
    \<Rightarrow> (jsval \<times> jsval) \<times> 's world" where
  "readLeg h clock val readQueueData result w =
     (if storeExcludes (get_prop readQueueData ''store'') ''redis'' then ((JNull, result), w)
      else if indexOf (identifierSet val) (the_string (get_prop readQueueData ''identifier'')) = - 1 then
        ((notRegistered (the_string (get_prop readQueueData ''identifier'')), result), w)
      else
        (case getHashObject (connection val) (the_string (get_prop readQueueData ''identifier''))
                (the_string (get_prop readQueueData ''key'')) (backend w) of
           ((err, response), s1) \<Rightarrow>
             (case (if truthy response \<and> truthy (get_prop response ''length'')
                    then set_prop result ''redis'' response else result) of
                result1 \<Rightarrow>
                  if truthy err then ((err, result1), w\<lparr>backend := s1\<rparr>)
                  else if \<not> truthy response then ((JNull, result1), w\<lparr>backend := s1\<rparr>)
                  else
                    (case (if truthy (redisReadDate h) then (redisReadDate h, w\<lparr>backend := s1\<rparr>)
                           else moment_now clock (w\<lparr>backend := s1\<rparr>)) of
                       (stamp, w2) \<Rightarrow>
                         (case setHashObject (connection val) (servicesInfo h)
                                 (serviceName val @ ''_''
                                   @ the_string (get_prop readQueueData ''identifier''))
                                 stamp (backend w2) of
                            ((err2, status), s2) \<Rightarrow>
                              ((JNull, result1), w2\<lparr>backend := s2\<rparr>))))))"

definition readFromQueue ::
  "'s QueueHandler \<Rightarrow> (nat \<Rightarrow> string) \<Rightarrow> jsval \<Rightarrow> jsval \<Rightarrow> 's world \<Rightarrow> outcome \<times> 's world" where
  "readFromQueue h clock readQueueData callback w =
     (case validateQueueFields readQueueData callback JUndefined of
        Inl thrown \<Rightarrow> (Throws thrown, w)
      | Inr validReadFields \<Rightarrow>
          if truthy validReadFields then (Callback validReadFields JUndefined, w)
          else
            (case connectionHandler h of
               None \<Rightarrow> (Callback JNull (JObj []), w)
             | Some val \<Rightarrow>
                 (case readLeg h clock val readQueueData (JObj []) w of
                    ((err, result), w1) \<Rightarrow> (Callback (firstError err) result, w1))))"

subsection \<open>readKeysFromQueue\<close>

definition readKeysLeg ::
  "'s RegistrationEntry \<Rightarrow> jsval \<Rightarrow> jsval \<Rightarrow> 's \<Rightarrow> (jsval \<times> jsval) \<times> 's" where
  "readKeysLeg val readKeyQueueData result s =
     (if storeExcludes (get_prop readKeyQueueData ''store'') ''redis'' then ((JNull, result), s)
      else if indexOf (identifierSet val) (the_string (get_prop readKeyQueueData ''identifier'')) = - 1 then
        ((notRegistered (the_string (get_prop readKeyQueueData ''identifier'')), result), s)
      else
        (case getHashKey (connection val) (the_string (get_prop readKeyQueueData ''identifier'')) s of
           ((err, response), s1) \<Rightarrow>
             (case response of
                None \<Rightarrow> ((err, result), s1)
              | Some names \<Rightarrow>
                  if length names \<noteq> 0
                  then ((err, set_prop result ''redis'' (JArr (map JStr names))), s1)
                  else ((err, result), s1))))"

definition readKeysFromQueue ::
  "'s QueueHandler \<Rightarrow> jsval \<Rightarrow> jsval \<Rightarrow> 's world \<Rightarrow> outcome \<times> 's world" where
  "readKeysFromQueue h readKeyQueueData callback w =
     (case validateQueueFields readKeyQueueData callback (JObj [(''key'', JBool True)]) of
        Inl thrown \<Rightarrow> (Throws thrown, w)
      | Inr validReadKeyFields \<Rightarrow>
          if truthy validReadKeyFields then (Callback validReadKeyFields JUndefined, w)
          else
            (case connectionHandler h of
               None \<Rightarrow> (Callback JNull (JObj []), w)
             | Some val \<Rightarrow>
                 (case readKeysLeg val readKeyQueueData (JObj []) (backend w) of
                    ((err, result), s) \<Rightarrow> (Callback (firstError err) result, w\<lparr>backend := s\<rparr>))))"

subsection \<open>readKeysAndValuesFromQueue\<close>

text \<open>
  The inner \<^verbatim>\<open>async.each\<close> over the key list. Every key is read, also after a read
  has failed: \<^verbatim>\<open>async.each\<close> starts all its iteratees and only calls its final callback
  at the first truthy error or after the last completion. \<open>acc\<close> is \<^verbatim>\<open>result.redis\<close>.
  \<open>fired\<close> tells whether the final callback has run, and then with which error and which
  \<^verbatim>\<open>result.redis\<close> it handed on. That final callback continues into the waterfall's,
  which clears \<^verbatim>\<open>this.redisReadDate\<close>; the reads that follow it see the cleared slot.
\<close>

fun readEach ::
  "(nat \<Rightarrow> string) \<Rightarrow> jsval \<Rightarrow> string list \<Rightarrow> 's QueueHandler \<Rightarrow> 's world \<Rightarrow> jsval list
    \<Rightarrow> (jsval \<times> jsval list) option
    \<Rightarrow> 's QueueHandler \<times> 's world \<times> jsval list \<times> (jsval \<times> jsval list)" where
  "readEach clock readKeyValQueueData [] h w acc fired =
     (case fired of
        Some d \<Rightarrow> (h, w, acc, d)
      | None \<Rightarrow> (h\<lparr>redisReadDate := JNull\<rparr>, w, acc, (JNull, acc)))"
| "readEach clock readKeyValQueueData (name # names) h w acc fired =
     (case set_prop (set_prop (Object_assign_empty readKeyValQueueData) ''key'' (JStr name))
             ''store'' (JArr [JStr ''redis'']) of
        dataObj \<Rightarrow>
          (case readFromQueue h clock dataObj (JFun 0) w of
             (out, w1) \<Rightarrow>
               (case callback_args out of
                  (err, response) \<Rightarrow>
                    (case (if truthy response \<and> truthy (get_prop response ''redis'')
                              \<and> truthy (get_prop (get_prop response ''redis'') ''length'')
                           then acc @ [set_prop dataObj ''value'' (get_prop response ''redis'')]
                           else acc) of
                       acc1 \<Rightarrow>
                         (case fired of
                            Some d \<Rightarrow> readEach clock readKeyValQueueData names h w1 acc1 fired
                          | None \<Rightarrow>
                              if truthy err then
                                readEach clock readKeyValQueueData names
                                  (h\<lparr>redisReadDate := JNull\<rparr>) w1 acc1 (Some (err, acc1))
                              else readEach clock readKeyValQueueData names h w1 acc1 None)))))"

text \<open>
  The iteratee for the \<^verbatim>\<open>redis\<close> entry with its waterfall: the error and \<^verbatim>\<open>result\<close>
  handed to the caller's callback, the instance and the world after the whole leg has run.
\<close>

definition readKeysAndValuesLeg ::
  "'s QueueHandler \<Rightarrow> (nat \<Rightarrow> string) \<Rightarrow> 's RegistrationEntry \<Rightarrow> jsval \<Rightarrow> 's world
    \<Rightarrow> (jsval \<times> jsval) \<times> 's QueueHandler \<times> 's world" where
  "readKeysAndValuesLeg h clock val readKeyValQueueData w =
     (if storeExcludes (get_prop readKeyValQueueData ''store'') ''redis'' then ((JNull, JObj []), h, w)
      else if indexOf (identifierSet val)
                (the_string (get_prop readKeyValQueueData ''identifier'')) = - 1 then
        ((notRegistered (the_string (get_prop readKeyValQueueData ''identifier'')), JObj []), h, w)
      else
        (case getHashKey (connection val)
                (the_string (get_prop readKeyValQueueData ''identifier'')) (backend w) of
           ((err, keyList), s1) \<Rightarrow>
             (case moment_now clock (w\<lparr>backend := s1\<rparr>) of
                (date, w1) \<Rightarrow>
                  if truthy err then ((err, JObj []), h\<lparr>redisReadDate := JNull\<rparr>, w1)
                  else
                    (case keyList of
                       None \<Rightarrow> ((JNull, JObj []), h\<lparr>redisReadDate := JNull\<rparr>, w1)
                     | Some names \<Rightarrow>
                         if length names = 0 then
                           ((JNull, JObj []), h\<lparr>redisReadDate := JNull\<rparr>, w1)
                         else
                           (case readEach clock readKeyValQueueData names
                                   (h\<lparr>redisReadDate := date\<rparr>) w1 [] None of
                              (h2, w2, acc, (err2, handed)) \<Rightarrow>
                                ((err2, JObj [(''redis'', JArr handed)]), h2, w2))))))"

definition readKeysAndValuesFromQueue ::
  "'s QueueHandler \<Rightarrow> (nat \<Rightarrow> string) \<Rightarrow> jsval \<Rightarrow> jsval \<Rightarrow> 's world
    \<Rightarrow> outcome \<times> 's QueueHandler \<times> 's world" where
  "readKeysAndValuesFromQueue h clock readKeyValQueueData callback w =
     (case validateQueueFields readKeyValQueueData callback (JObj [(''key'', JBool True)]) of
        Inl thrown \<Rightarrow> (Throws thrown, h, w)
      | Inr validReadKeyAndValueFields \<Rightarrow>
          if truthy validReadKeyAndValueFields then
            (Callback validReadKeyAndValueFields JUndefined, h, w)
          else
            (case connectionHandler h of
               None \<Rightarrow> (Callback JNull (JObj []), h, w)
             | Some val \<Rightarrow>
                 (case readKeysAndValuesLeg h clock val readKeyValQueueData w of
                    ((err, result), h1, w1) \<Rightarrow> (Callback (firstError err) result, h1, w1))))"

subsection \<open>deleteKeyFromQueue\<close>

definition deleteLeg ::
  "'s RegistrationEntry \<Rightarrow> jsval \<Rightarrow> jsval \<Rightarrow> 's \<Rightarrow> (jsval \<times> jsval) \<times> 's" where
  "deleteLeg val deleteQueueData result s =
     (if storeExcludes (get_prop deleteQueueData ''store'') ''redis'' then ((JNull, result), s)
      else if indexOf (identifierSet val) (the_string (get_prop deleteQueueData ''identifier'')) = - 1 then
        ((notRegistered (the_string (get_prop deleteQueueData ''identifier'')), result), s)
      else
        (case deleteHashKey (connection val) (the_string (get_prop deleteQueueData ''identifier''))
                (the_string (get_prop deleteQueueData ''key'')) s of
           ((err, response), s1) \<Rightarrow>
             ((err, if truthy response then set_prop result ''redis'' response else result), s1)))"

text \<open>
  The final callback of the fan-out in \<^verbatim>\<open>deleteKeyFromQueue\<close>, seen from the caller; as
  for \<^verbatim>\<open>pushToQueue\<close>, the operation itself returns \<^verbatim>\<open>undefined\<close>.
\<close>

definition deleteDone :: "jsval \<Rightarrow> jsval \<Rightarrow> jsval \<Rightarrow> 's world \<Rightarrow> outcome \<times> 's world" where
  "deleteDone err result callback w =
     (if callback \<noteq> JUndefined then (Callback err result, w)
      else if truthy err then (Throws err, w)
      else (Returns JUndefined, w))"

definition deleteKeyFromQueue ::
  "'s QueueHandler \<Rightarrow> jsval \<Rightarrow> jsval \<Rightarrow> 's world \<Rightarrow> outcome \<times> 's world" where
  "deleteKeyFromQueue h deleteQueueData callback w =
     (case validateQueueFields deleteQueueData callback JUndefined of
        Inl thrown \<Rightarrow> (Throws thrown, w)
      | Inr validDeleteKeyFields \<Rightarrow>
          if truthy validDeleteKeyFields then (Callback validDeleteKeyFields JUndefined, w)
          else
            (case connectionHandler h of
               None \<Rightarrow> deleteDone JNull (JObj []) callback w
             | Some val \<Rightarrow>
                 (case deleteLeg val deleteQueueData (JObj []) (backend w) of
                    ((err, result), s) \<Rightarrow>
                      deleteDone (firstError err) result callback (w\<lparr>backend := s\<rparr>))))"

section \<open>src/unnamed/part_000: an earlier revision of index.js\<close>

text \<open>
  The unnamed source file is a revision of \<^verbatim>\<open>index.js\<close> from before the field checks
  moved to \<^verbatim>\<open>ValidateStoreFields.js\<close>: every operation checks its request inline, calls
  the callback without first checking that it is a function, replaces an absent
  \<^verbatim>\<open>store\<close> by an empty array on the caller's object, and lets a backend take part when
  that array is empty. Its operations carry the suffix \<open>part000\<close>.

  Calling \<^verbatim>\<open>callback(err, result)\<close>: a TypeError when the callback is not a function.
\<close>

definition invoke :: "jsval \<Rightarrow> jsval \<Rightarrow> jsval \<Rightarrow> outcome" where
  "invoke callback err result =
     (if typeof callback = ''function'' then Callback err result
      else Throws (JStr ''TypeError: callback is not a function''))"

text \<open>The inline checks, in the order every operation makes them.\<close>

definition badQueueData :: "jsval \<Rightarrow> bool" where
  "badQueueData queueData =
     (\<not> truthy queueData \<or> typeof queueData \<noteq> ''object'' \<or> Object_keys_length queueData = 0)"

definition badIdentifier :: "jsval \<Rightarrow> bool" where
  "badIdentifier queueData =
     (\<not> truthy (get_prop queueData ''identifier'')
      \<or> typeof (get_prop queueData ''identifier'') \<noteq> ''string''
      \<or> trim (the_string (get_prop queueData ''identifier'')) = [])"

definition badKey :: "jsval \<Rightarrow> bool" where
  "badKey queueData =
     (\<not> truthy (get_prop queueData ''key'')
      \<or> typeof (get_prop queueData ''key'') \<noteq> ''string''
      \<or> trim (the_string (get_prop queueData ''key'')) = [])"

definition badStore :: "jsval \<Rightarrow> bool" where
  "badStore queueData =
     (get_prop queueData ''store'' \<noteq> JUndefined
      \<and> (\<not> instanceofArray (get_prop queueData ''store'')
           \<or> length (array_items (get_prop queueData ''store'')) = 0))"

text \<open>
  \<^verbatim>\<open>queueData.store = (queueData.store === undefined ? new Array() : queueData.store)\<close>:
  the request after the assignment.
\<close>

definition normalizeStore :: "jsval \<Rightarrow> jsval" where
  "normalizeStore queueData =
     set_prop queueData ''store''
       (if get_prop queueData ''store'' = JUndefined then JArr [] else get_prop queueData ''store'')"

text \<open>
  The store filter of every iteratee of this revision:
  \<^verbatim>\<open>queueData.store.length !== 0 && queueData.store.indexOf(serviceStore.toLowerCase()) === -1\<close>.
\<close>

definition storeExcludes_part000 :: "jsval \<Rightarrow> string \<Rightarrow> bool" where
  "storeExcludes_part000 store serviceStore =
     (length (array_items store) \<noteq> 0
      \<and> indexOf (array_items store) (JStr (toLowerCase serviceStore)) = - 1)"

subsection \<open>pushToQueue\<close>

definition pushLeg_part000 :: "'s RegistrationEntry \<Rightarrow> jsval \<Rightarrow> 's \<Rightarrow> jsval \<times> 's" where
  "pushLeg_part000 val queueData s =
     (if storeExcludes_part000 (get_prop queueData ''store'') ''redis'' then (JNull, s)
      else if indexOf (identifierSet val) (the_string (get_prop queueData ''identifier'')) = - 1 then
        (notRegistered (the_string (get_prop queueData ''identifier'')), s)
      else
        (case setHashObject (connection val) (the_string (get_prop queueData ''identifier''))
                (the_string (get_prop queueData ''key'')) (get_prop queueData ''value'') s of
           ((err, status), s1) \<Rightarrow> (err, s1)))"

definition pushFail_part000 :: "jsval \<Rightarrow> jsval \<Rightarrow> 's world \<Rightarrow> outcome \<times> 's world" where
  "pushFail_part000 errMsg callback w =
     (if callback \<noteq> JUndefined then (invoke callback errMsg JNull, w) else (Throws errMsg, w))"

definition pushToQueue_part000 ::
  "'s QueueHandler \<Rightarrow> jsval \<Rightarrow> jsval \<Rightarrow> 's world \<Rightarrow> outcome \<times> 's world" where
  "pushToQueue_part000 h queueData callback w =
     (if badQueueData queueData then
        pushFail_part000 (JStr '''Queue data' is either missing or not in the specified format'')
          callback w
      else if badIdentifier queueData then
        pushFail_part000 (JStr '''Identifier' is either missing or not in the specified format'')
          callback w
      else if badKey queueData then
        pushFail_part000 (JStr '''Key' is either missing or not in the specified format'')
          callback w
      else if \<not> truthy (get_prop queueData ''value'')
              \<or> typeof (get_prop queueData ''value'') \<noteq> ''object''
              \<or> Object_keys_length (get_prop queueData ''value'') = 0 then
        pushFail_part000 (JStr '''Value' is either missing or not in the specified format'')
          callback w
      else if \<not> truthy (get_prop (get_prop queueData ''value'') ''targetType'')
              \<or> \<not> instanceofArray (get_prop (get_prop queueData ''value'') ''targetType'')
              \<or> length (array_items (get_prop (get_prop queueData ''value'') ''targetType'')) = 0 then
        pushFail_part000 (JStr '''Target type' is either missing or not in the specified format'')
          callback w
      else if badStore queueData then
        pushFail_part000 (JStr '''Store' value is either blank or not in the specified format'')
          callback w
      else if callback \<noteq> JUndefined \<and> typeof callback \<noteq> ''function'' then
        (Throws (JStr ''Callback is not a function''), w)
      else
        (case connectionHandler h of
           None \<Rightarrow> pushDone JNull callback w
         | Some val \<Rightarrow>
             (case pushLeg_part000 val (normalizeStore queueData) (backend w) of
                (err, s) \<Rightarrow> pushDone (firstError err) callback (w\<lparr>backend := s\<rparr>))))"

subsection \<open>readFromQueue\<close>

definition readLeg_part000 ::
  "'s QueueHandler \<Rightarrow> (nat \<Rightarrow> string) \<Rightarrow> 's RegistrationEntry \<Rightarrow> jsval \<Rightarrow> jsval \<Rightarrow> 's world
    \<Rightarrow> (jsval \<times> jsval) \<times> 's world" where
  "readLeg_part000 h clock val queueData result w =
     (if storeExcludes_part000 (get_prop queueData ''store'') ''redis'' then ((JNull, result), w)
      else if indexOf (identifierSet val) (the_string (get_prop queueData ''identifier'')) = - 1 then
        ((notRegistered (the_string (get_prop queueData ''identifier'')), result), w)
      else
        (case getHashObject (connection val) (the_string (get_prop queueData ''identifier''))
                (the_string (get_prop queueData ''key'')) (backend w) of
           ((err, response), s1) \<Rightarrow>
             (case (if truthy response \<and> truthy (get_prop response ''length'')
                    then set_prop result ''redis'' response else result) of
                result1 \<Rightarrow>
                  if truthy err then ((err, result1), w\<lparr>backend := s1\<rparr>)
                  else if \<not> truthy response then ((JNull, result1), w\<lparr>backend := s1\<rparr>)
                  else
                    (case (if truthy (redisReadDate h) then (redisReadDate h, w\<lparr>backend := s1\<rparr>)
                           else moment_now clock (w\<lparr>backend := s1\<rparr>)) of
                       (stamp, w2) \<Rightarrow>
                         (case setHashObject (connection val) (servicesInfo h)
                                 (serviceName val @ ''_''
                                   @ the_string (get_prop queueData ''identifier''))
                                 stamp (backend w2) of
                            ((err2, status), s2) \<Rightarrow>
                              ((JNull, result1), w2\<lparr>backend := s2\<rparr>))))))"

definition readFromQueue_part000 ::
  "'s QueueHandler \<Rightarrow> (nat \<Rightarrow> string) \<Rightarrow> jsval \<Rightarrow> jsval \<Rightarrow> 's world \<Rightarrow> outcome \<times> 's world" where
  "readFromQueue_part000 h clock queueData callback w =
     (if badQueueData queueData then
        (invoke callback
           (JStr '''Queue data' is either missing or not in the specified format'') JUndefined, w)
      else if badIdentifier queueData then
        (invoke callback
           (JStr '''Identifier' is either missing or not in the specified format'') JUndefined, w)
      else if badKey queueData then
        (invoke callback
           (JStr '''Key' is either missing or not in the specified format'') JUndefined, w)
      else if badStore queueData then
        (invoke callback
           (JStr '''Store' value is either blank or not in the specified format'') JUndefined, w)
      else if callback = JUndefined \<or> typeof callback \<noteq> ''function'' then
        (Throws (JStr ''Callback is expected and must be a function''), w)
      else
        (case connectionHandler h of
           None \<Rightarrow> (Callback JNull (JObj []), w)
         | Some val \<Rightarrow>
             (case readLeg_part000 h clock val (normalizeStore queueData) (JObj []) w of
                ((err, result), w1) \<Rightarrow> (Callback (firstError err) result, w1))))"

subsection \<open>readKeysAndValuesFromQueue\<close>

text \<open>
  The per-key reads, as \<open>readEach\<close> above. \<^verbatim>\<open>dataObj\<close> is a copy of the request after its
  \<^verbatim>\<open>store\<close> was replaced, with the key set; this revision does not pin its store to
  \<^verbatim>\<open>['redis']\<close>, and tests \<^verbatim>\<open>response.length\<close> of the result object.
\<close>

fun readEach_part000 ::
  "(nat \<Rightarrow> string) \<Rightarrow> jsval \<Rightarrow> string list \<Rightarrow> 's QueueHandler \<Rightarrow> 's world \<Rightarrow> jsval list
    \<Rightarrow> (jsval \<times> jsval list) option
    \<Rightarrow> 's QueueHandler \<times> 's world \<times> jsval list \<times> (jsval \<times> jsval list)" where
  "readEach_part000 clock queueData [] h w acc fired =
     (case fired of
        Some d \<Rightarrow> (h, w, acc, d)
      | None \<Rightarrow> (h\<lparr>redisReadDate := JNull\<rparr>, w, acc, (JNull, acc)))"
| "readEach_part000 clock queueData (name # names) h w acc fired =
     (case set_prop (Object_assign_empty queueData) ''key'' (JStr name) of
        dataObj \<Rightarrow>
          (case readFromQueue_part000 h clock dataObj (JFun 0) w of
             (out, w1) \<Rightarrow>
               (case callback_args out of
                  (err, response) \<Rightarrow>
                    (case (if truthy response \<and> truthy (get_prop response ''length'')
                           then acc @ [set_prop dataObj ''value'' (get_prop response ''redis'')]
                           else acc) of
                       acc1 \<Rightarrow>
                         (case fired of
                            Some d \<Rightarrow> readEach_part000 clock queueData names h w1 acc1 fired
                          | None \<Rightarrow>
                              if truthy err then
                                readEach_part000 clock queueData names
                                  (h\<lparr>redisReadDate := JNull\<rparr>) w1 acc1 (Some (err, acc1))
                              else readEach_part000 clock queueData names h w1 acc1 None)))))"

definition readKeysAndValuesLeg_part000 ::
  "'s QueueHandler \<Rightarrow> (nat \<Rightarrow> string) \<Rightarrow> 's RegistrationEntry \<Rightarrow> jsval \<Rightarrow> 's world
    \<Rightarrow> (jsval \<times> jsval) \<times> 's QueueHandler \<times> 's world" where
  "readKeysAndValuesLeg_part000 h clock val queueData w =
     (if storeExcludes_part000 (get_prop queueData ''store'') ''redis'' then ((JNull, JObj []), h, w)
      else if indexOf (identifierSet val) (the_string (get_prop queueData ''identifier'')) = - 1 then
        ((notRegistered (the_string (get_prop queueData ''identifier'')), JObj []), h, w)
      else
        (case getHashKey (connection val) (the_string (get_prop queueData ''identifier''))
                (backend w) of
           ((err, keyList), s1) \<Rightarrow>
             (case moment_now clock (w\<lparr>backend := s1\<rparr>) of
                (date, w1) \<Rightarrow>
                  if truthy err then ((err, JObj []), h\<lparr>redisReadDate := JNull\<rparr>, w1)
                  else
                    (case keyList of
                       None \<Rightarrow> ((JNull, JObj []), h\<lparr>redisReadDate := JNull\<rparr>, w1)
                     | Some names \<Rightarrow>
                         if length names = 0 then
                           ((JNull, JObj []), h\<lparr>redisReadDate := JNull\<rparr>, w1)
                         else
                           (case readEach_part000 clock queueData names
                                   (h\<lparr>redisReadDate := date\<rparr>) w1 [] None of
                              (h2, w2, acc, (err2, handed)) \<Rightarrow>
                                ((err2, JObj [(''redis'', JArr handed)]), h2, w2))))))"

definition readKeysAndValuesFromQueue_part000 ::
  "'s QueueHandler \<Rightarrow> (nat \<Rightarrow> string) \<Rightarrow> jsval \<Rightarrow> jsval \<Rightarrow> 's world
    \<Rightarrow> outcome \<times> 's QueueHandler \<times> 's world" where
  "readKeysAndValuesFromQueue_part000 h clock queueData callback w =
     (if badQueueData queueData then
        (invoke callback
           (JStr '''Queue data' is either missing or not in the specified format'') JUndefined,
         h, w)
      else if badIdentifier queueData then
        (invoke callback
           (JStr '''Identifier' is either missing or not in the specified format'') JUndefined,
         h, w)
      else if badStore queueData then
        (invoke callback
           (JStr '''Store' value is either blank or not in the specified format'') JUndefined,
         h, w)
      else if callback = JUndefined \<or> typeof callback \<noteq> ''function'' then
        (Throws (JStr ''Callback is expected and must be a function''), h, w)
      else
        (case connectionHandler h of
           None \<Rightarrow> (Callback JNull (JObj []), h, w)
         | Some val \<Rightarrow>
             (case readKeysAndValuesLeg_part000 h clock val (normalizeStore queueData) w of
                ((err, result), h1, w1) \<Rightarrow> (Callback (firstError err) result, h1, w1))))"

section \<open>A backend adapter as the specification describes it\<close>

text \<open>
  Modelled from the spec: the Backend Adapter (\<^verbatim>\<open>./redis_io\<close>, which is not among the
  sources). The specification gives its interface as
  \<^verbatim>\<open>getField(group, field) -> value|absent\<close>, \<^verbatim>\<open>setField(group, field, value) -> ack\<close>,
  \<^verbatim>\<open>deleteField(group, field) -> ack|absent\<close> and
  \<^verbatim>\<open>listFields(group) -> ordered sequence of field names\<close>. The state maps a group to its
  fields in insertion order; a read hands back the value as it was stored, an absent field
  reads as \<^verbatim>\<open>null\<close>, and no operation reports an error.
\<close>

type_synonym hashes = "string \<Rightarrow> (string \<times> jsval) list"

definition spec_getField :: "string \<Rightarrow> string \<Rightarrow> hashes \<Rightarrow> (jsval \<times> jsval) \<times> hashes" where
  "spec_getField grp fld s =
     ((JNull, case map_of (s grp) fld of Some v \<Rightarrow> v | None \<Rightarrow> JNull), s)"

definition spec_setField :: "string \<Rightarrow> string \<Rightarrow> jsval \<Rightarrow> hashes \<Rightarrow> (jsval \<times> jsval) \<times> hashes" where
  "spec_setField grp fld v s = ((JNull, JStr ''OK''), s(grp := AList.update fld v (s grp)))"

definition spec_deleteField :: "string \<Rightarrow> string \<Rightarrow> hashes \<Rightarrow> (jsval \<times> jsval) \<times> hashes" where
  "spec_deleteField grp fld s =
     ((JNull, case map_of (s grp) fld of Some v \<Rightarrow> JNum 1 | None \<Rightarrow> JNull),
      s(grp := AList.delete fld (s grp)))"

definition spec_listFields :: "string \<Rightarrow> hashes \<Rightarrow> (jsval \<times> string list option) \<times> hashes" where
  "spec_listFields grp s = ((JNull, Some (map fst (s grp))), s)"

definition spec_adapter :: "hashes adapter" where
  "spec_adapter =
     \<lparr>getHashObject = spec_getField, setHashObject = spec_setField,
      getHashKey = spec_listFields, deleteHashKey = spec_deleteField\<rparr>"

section \<open>Observing the calls an instance makes\<close>

text \<open>
  To state which backend calls an operation performs, an adapter can be wrapped so that it
  appends every call, with the error and response it produced, to a log kept beside the
  backend's state. The wrapper changes nothing else: the wrapped adapter answers as the
  original does.
\<close>

datatype call =
    GetObject string string jsval jsval
  | SetObject string string jsval jsval
  | ListKeys string jsval
  | DeleteKey string string jsval jsval

definition logged :: "'s adapter \<Rightarrow> ('s \<times> call list) adapter" where
  "logged a =
     \<lparr>getHashObject = (\<lambda>grp fld (s, l).
        case getHashObject a grp fld s of
          ((err, response), s1) \<Rightarrow> ((err, response), (s1, l @ [GetObject grp fld err response]))),
      setHashObject = (\<lambda>grp fld v (s, l).
        case setHashObject a grp fld v s of
          ((err, status), s1) \<Rightarrow> ((err, status), (s1, l @ [SetObject grp fld v err]))),
      getHashKey = (\<lambda>grp (s, l).
        case getHashKey a grp s of
          ((err, response), s1) \<Rightarrow> ((err, response), (s1, l @ [ListKeys grp err]))),
      deleteHashKey = (\<lambda>grp fld (s, l).
        case deleteHashKey a grp fld s of
          ((err, response), s1) \<Rightarrow> ((err, response), (s1, l @ [DeleteKey grp fld err response])))\<rparr>"

text \<open>The calls logged so far in a world.\<close>

definition calls :: "('s \<times> call list) world \<Rightarrow> call list" where
  "calls w = snd (backend w)"

text \<open>The values written by the \<^verbatim>\<open>setHashObject\<close> calls of a log to one field.\<close>

fun writesTo :: "string \<Rightarrow> string \<Rightarrow> call list \<Rightarrow> jsval list" where
  "writesTo grp fld [] = []"
| "writesTo grp fld (SetObject g f v err # cs) =
     (if g = grp \<and> f = fld then v # writesTo grp fld cs else writesTo grp fld cs)"
| "writesTo grp fld (c # cs) = writesTo grp fld cs"

text \<open>The truthy errors that the \<^verbatim>\<open>getHashObject\<close> calls of a log reported.\<close>

fun getErrors :: "call list \<Rightarrow> jsval list" where
  "getErrors [] = []"
| "getErrors (GetObject g f err response # cs) =
     (if truthy err then err # getErrors cs else getErrors cs)"
| "getErrors (c # cs) = getErrors cs"

section \<open>Notions used by the properties\<close>

text \<open>The identifiers a supplied list registers: the non-blank ones, trimmed, in order.\<close>

definition trimmedIdentifiers :: "string list \<Rightarrow> string list" where
  "trimmedIdentifiers ids = map trim (filter (\<lambda>i. trim i \<noteq> []) ids)"

text \<open>The registered identifiers of the instance a construction produced, if it produced one.\<close>

fun registeredIdentifiers :: "jsval + 's QueueHandler \<Rightarrow> string list option" where
  "registeredIdentifiers (Inr h) = map_option identifierSet (connectionHandler h)"
| "registeredIdentifiers (Inl err) = None"

text \<open>A value stored under a field of the reserved group, in the adapter of the specification.\<close>

definition stored :: "hashes \<Rightarrow> string \<Rightarrow> string \<Rightarrow> jsval" where
  "stored s grp fld = (case map_of (s grp) fld of Some v \<Rightarrow> v | None \<Rightarrow> JNull)"

section \<open>Concrete inputs and further notions\<close>

text \<open>
  A clock whose readings differ, an empty backend, a configuration object and validated
  configurations with one \<^verbatim>\<open>redis\<close> store, used to run the code on explicit inputs.
\<close>

definition demo_clock :: "nat \<Rightarrow> string" where
  "demo_clock n = ''2024-01-01T00:00:0'' @ [''0123456789'' ! (n mod 10)]"

definition empty_hashes :: hashes where
  "empty_hashes = (\<lambda>grp. [])"

definition demo_world :: "hashes world" where
  "demo_world = \<lparr>backend = empty_hashes, ticks = 0\<rparr>"

definition demo_connectionConfig :: jsval where
  "demo_connectionConfig = JObj [(''redis'', JObj [(''serviceName'', JStr ''svc'')])]"

definition demo_validation :: "string list \<Rightarrow> validation" where
  "demo_validation ids =
     \<lparr>success = True, errorMsg = JNull,
      elements = [(''redis'', \<lparr>queueConnector = JArr [], cfg_serviceName = ''svc'',
                               cfg_identifierSet = ids\<rparr>)]\<rparr>"

definition spec_redisOperation :: "jsval \<Rightarrow> hashes adapter" where
  "spec_redisOperation connector = spec_adapter"

text \<open>
  The two checks \<^verbatim>\<open>pushToQueue\<close> makes on \<^verbatim>\<open>queueData.value\<close>: it is a non-empty object,
  and its \<^verbatim>\<open>targetType\<close> is a non-empty array.
\<close>

definition valueAccepted :: "jsval \<Rightarrow> bool" where
  "valueAccepted v =
     (truthy v \<and> typeof v = ''object'' \<and> Object_keys_length v \<noteq> 0
      \<and> truthy (get_prop v ''targetType'') \<and> instanceofArray (get_prop v ''targetType'')
      \<and> length (array_items (get_prop v ''targetType'')) \<noteq> 0)"

text \<open>
  The timestamp a read writes:
  \<^verbatim>\<open>this.redisReadDate || moment(new Date()).format("YYYY-MM-DDTHH:mm:ss")\<close>.
\<close>

definition readStamp :: "'s QueueHandler \<Rightarrow> (nat \<Rightarrow> string) \<Rightarrow> 't world \<Rightarrow> jsval" where
  "readStamp h clock w =
     (if truthy (redisReadDate h) then redisReadDate h else JStr (clock (ticks w)))"

text \<open>
  The instance that construction with the identifier \<^verbatim>\<open>orders\<close> produces, the same
  instance over a logged adapter, and requests addressing \<^verbatim>\<open>orders\<close>/\<^verbatim>\<open>o1\<close>.
\<close>

definition demo_handler :: "hashes QueueHandler" where
  "demo_handler =
     \<lparr>connectionHandler = Some \<lparr>connection = spec_adapter, serviceName = ''svc'',
                                 identifierSet = [''orders'']\<rparr>,
      servicesInfo = ''registeredServices'', redisReadDate = JUndefined\<rparr>"

definition demo_logged_handler :: "(hashes \<times> call list) QueueHandler" where
  "demo_logged_handler =
     \<lparr>connectionHandler = Some \<lparr>connection = logged spec_adapter, serviceName = ''svc'',
                                 identifierSet = [''orders'']\<rparr>,
      servicesInfo = ''registeredServices'', redisReadDate = JUndefined\<rparr>"

definition demo_logged_world :: "hashes \<Rightarrow> (hashes \<times> call list) world" where
  "demo_logged_world s = \<lparr>backend = (s, []), ticks = 0\<rparr>"

definition demo_request :: "jsval \<Rightarrow> jsval" where
  "demo_request v = JObj [(''identifier'', JStr ''orders''), (''key'', JStr ''o1''), (''value'', v)]"

definition demo_read_request :: jsval where
  "demo_read_request = JObj [(''identifier'', JStr ''orders''), (''key'', JStr ''o1'')]"

definition demo_value :: jsval where
  "demo_value = JObj [(''targetType'', JArr [JStr ''email''])]"

definition demo_stored :: hashes where
  "demo_stored = empty_hashes(''orders'' := [(''o1'', demo_value)])"

text \<open>
  Adapters that report errors: one whose \<^verbatim>\<open>setHashObject\<close> always fails and one whose
  \<^verbatim>\<open>getHashObject\<close> always fails; and the \<^verbatim>\<open>redisOperation\<close> factories that hand out
  these adapters, or a logged adapter.
\<close>

definition readonly_adapter :: "hashes adapter" where
  "readonly_adapter = spec_adapter\<lparr>setHashObject := (\<lambda>grp fld v s. ((JStr ''READONLY'', JNull), s))\<rparr>"

definition refusing_adapter :: "hashes adapter" where
  "refusing_adapter = spec_adapter\<lparr>getHashObject := (\<lambda>grp fld s. ((JStr ''ECONNREFUSED'', JNull), s))\<rparr>"

definition readonly_redisOperation :: "jsval \<Rightarrow> hashes adapter" where
  "readonly_redisOperation connector = readonly_adapter"

definition refusing_redisOperation :: "jsval \<Rightarrow> hashes adapter" where
  "refusing_redisOperation connector = refusing_adapter"

definition loggedOperation :: "(jsval \<Rightarrow> 's adapter) \<Rightarrow> jsval \<Rightarrow> ('s \<times> call list) adapter" where
  "loggedOperation ro connector = logged (ro connector)"

text \<open>
  The error a construction throws, if it throws: out of \<^verbatim>\<open>new\<close> (\<open>thrownBy\<close> of its
  result), and the first truthy error that the \<^verbatim>\<open>getHashObject\<close> calls of a log reported
  (\<open>firstLookupError\<close>). \<open>lookupCall\<close> is the log entry of an issued lookup.
\<close>

fun thrownBy :: "jsval + 'a \<Rightarrow> jsval option" where
  "thrownBy (Inl e) = Some e"
| "thrownBy (Inr h) = None"

definition firstLookupError :: "call list \<Rightarrow> jsval option" where
  "firstLookupError new = (case getErrors new of [] \<Rightarrow> None | e # es \<Rightarrow> Some e)"

fun lookupCall :: "string \<Rightarrow> lookup \<Rightarrow> call" where
  "lookupCall info (fld, err, result) = GetObject info fld err result"

text \<open>
  Registration entries of the reserved group in the adapter of the specification:
  \<open>keepsPresent\<close> says that every field holding a truthy value in \<open>s\<close> holds the same
  value in \<open>s'\<close>; \<open>allPresent\<close> that the registration key of every non-blank identifier
  of the configuration holds a truthy value.
\<close>

definition keepsPresent :: "string \<Rightarrow> hashes \<Rightarrow> hashes \<Rightarrow> bool" where
  "keepsPresent info s s' = (\<forall>fld. truthy (stored s info fld) \<longrightarrow> stored s' info fld = stored s info fld)"

definition allPresent :: "string \<Rightarrow> (string \<times> BackendConfig) list \<Rightarrow> hashes \<Rightarrow> bool" where
  "allPresent info es s =
     (\<forall>e \<in> set es. \<forall>i \<in> set (cfg_identifierSet (snd e)).
        trim i \<noteq> [] \<longrightarrow> truthy (stored s info (cfg_serviceName (snd e) @ ''_'' @ trim i)))"

text \<open>The world after construction with the identifier \<^verbatim>\<open>orders\<close> on the empty backend.\<close>

definition demo_registered :: "hashes world" where
  "demo_registered =
     \<lparr>backend = empty_hashes(''registeredServices'' := [(''svc_orders'', JStr ''2024-01-01T00:00:00'')]),
      ticks = 1\<rparr>"

text \<open>A value Insert accepts that also carries a truthy \<^verbatim>\<open>length\<close> property.\<close>

definition demo_value_with_length :: jsval where
  "demo_value_with_length = JObj [(''targetType'', JArr [JStr ''email'']), (''length'', JNum 1)]"

text \<open>
  A logged call is \<open>stampedWith info fld stamp\<close> when it is not a write, or is the write of
  \<open>stamp\<close> to the field \<open>fld\<close> of the group \<open>info\<close>.
\<close>

fun stampedWith :: "string \<Rightarrow> string \<Rightarrow> jsval \<Rightarrow> call \<Rightarrow> bool" where
  "stampedWith info fld stamp (SetObject g f v err) = (g = info \<and> f = fld \<and> v = stamp)"
| "stampedWith info fld stamp c = True"

text \<open>
  An adapter whose lookup of the field \<^verbatim>\<open>o1\<close> times out, an instance over it, a request
  that lists the group \<^verbatim>\<open>orders\<close>, and backends holding valid values under two and
  three keys of that group.
\<close>

definition timeout_adapter :: "hashes adapter" where
  "timeout_adapter =
     spec_adapter\<lparr>getHashObject := (\<lambda>grp fld s.
        if fld = ''o1'' then ((JStr ''ETIMEDOUT'', JNull), s) else spec_getField grp fld s)\<rparr>"

definition demo_timeout_handler :: "(hashes \<times> call list) QueueHandler" where
  "demo_timeout_handler =
     \<lparr>connectionHandler = Some \<lparr>connection = logged timeout_adapter, serviceName = ''svc'',
                                 identifierSet = [''orders'']\<rparr>,
      servicesInfo = ''registeredServices'', redisReadDate = JUndefined\<rparr>"

definition demo_list_request :: jsval where
  "demo_list_request = JObj [(''identifier'', JStr ''orders'')]"

definition demo_stored_three :: hashes where
  "demo_stored_three =
     empty_hashes(''orders'' := [(''o0'', demo_value), (''o1'', demo_value), (''o2'', demo_value)])"

definition demo_stored_two :: hashes where
  "demo_stored_two = empty_hashes(''orders'' := [(''o1'', demo_value), (''o2'', demo_value)])"

text \<open>
  The entry a ListKeysAndValues batch pushes to \<^verbatim>\<open>result.redis\<close> for the key \<open>k\<close> whose
  read returned \<open>v\<close>: \<^verbatim>\<open>dataObj\<close> with its \<^verbatim>\<open>value\<close>.
\<close>

definition batchEntry :: "jsval \<Rightarrow> string \<Rightarrow> jsval \<Rightarrow> jsval" where
  "batchEntry q k v =
     set_prop (set_prop (set_prop (Object_assign_empty q) ''key'' (JStr k)) ''store''
        (JArr [JStr ''redis''])) ''value'' v"

text \<open>
  Insert requests for the group \<^verbatim>\<open>orders\<close>, and the world after inserting the keys
  \<^verbatim>\<open>o1\<close> and \<^verbatim>\<open>o2\<close> into the empty backend through an instance over the logged adapter.
\<close>

definition demo_insert :: "string \<Rightarrow> jsval \<Rightarrow> jsval" where
  "demo_insert k v = JObj [(''identifier'', JStr ''orders''), (''key'', JStr k), (''value'', v)]"

definition demo_after_inserts :: "jsval \<Rightarrow> jsval \<Rightarrow> (hashes \<times> call list) world" where
  "demo_after_inserts v1 v2 =
     snd (pushToQueue demo_logged_handler (demo_insert ''o2'' v2) (JFun 0)
       (snd (pushToQueue demo_logged_handler (demo_insert ''o1'' v1) (JFun 0)
          (demo_logged_world empty_hashes))))"

text \<open>
  The message both revisions report for a \<^verbatim>\<open>store\<close> that is not a non-empty array, and a
  request whose \<^verbatim>\<open>store\<close> is present and empty.
\<close>

definition storeMessage :: jsval where
  "storeMessage = JStr '''Store' value is either blank or not in the specified format''"

definition demo_empty_store_request :: jsval where
  "demo_empty_store_request =
     JObj [(''identifier'', JStr ''orders''), (''key'', JStr ''o1''), (''store'', JArr [])]"

section \<open>Basic facts\<close>

lemma toLowerCase_redis: "toLowerCase ''redis'' = ''redis''"
  by (simp add: toLowerCase_def lower_char_def)

lemma indexOf_ge: "- 1 \<le> indexOf xs v"
  by (induction xs) (auto simp: Let_def)

lemma indexOf_absent: "(indexOf xs v = - 1) = (v \<notin> set xs)"
proof (induction xs)
  case Nil
  show ?case by simp
next
  case (Cons x xs)
  have "- 1 \<le> indexOf xs v" by (rule indexOf_ge)
  with Cons show ?case by (auto simp: Let_def)
qed

lemmas demo_defs = QueueHandler_constructor_def demo_connectionConfig_def demo_validation_def
  demo_world_def moment_now_def spec_redisOperation_def spec_adapter_def spec_getField_def
  spec_setField_def empty_hashes_def toLowerCase_def lower_char_def trim_def is_space_def
  demo_clock_def

section \<open>Construction: which identifiers are registered\<close>

lemma registerIdentifiers_ids:
  "registerIdentifiers conn info sname date ids acc s = (Inr ids', s')
   \<Longrightarrow> ids' = acc @ trimmedIdentifiers ids"
proof (induction ids arbitrary: acc s)
  case Nil
  then show ?case by (simp add: trimmedIdentifiers_def)
next
  case (Cons i ids)
  from Cons.prems show ?case
    by (auto simp: trimmedIdentifiers_def split: if_splits prod.splits dest!: Cons.IH)
qed

lemma registerStores_entry:
  "registerStores ro info date es cur s = (Inr r, s') \<Longrightarrow> es \<noteq> []
   \<Longrightarrow> \<exists>e. r = Some e \<and> identifierSet e = trimmedIdentifiers (cfg_identifierSet (snd (last es)))
         \<and> serviceName e = cfg_serviceName (snd (last es))
         \<and> connection e = ro (queueConnector (snd (last es)))"
proof (induction es arbitrary: cur s)
  case Nil
  then show ?case by simp
next
  case (Cons a es)
  obtain name val where a: "a = (name, val)" by (cases a)
  show ?case
  proof (cases "toLowerCase name = ''redis''")
    case False
    with Cons.prems a show ?thesis by simp
  next
    case True
    obtain r1 s1 where r1:
      "registerIdentifiers (ro (queueConnector val)) info (cfg_serviceName val) date
         (cfg_identifierSet val) [] s = (r1, s1)"
      by (cases "registerIdentifiers (ro (queueConnector val)) info (cfg_serviceName val) date
                   (cfg_identifierSet val) [] s")
    show ?thesis
    proof (cases r1)
      case (Inl e)
      with Cons.prems a True r1 show ?thesis by simp
    next
      case (Inr ids)
      with Cons.prems a True r1 have rest:
        "registerStores ro info date es
           (Some \<lparr>connection = ro (queueConnector val),
                  serviceName = cfg_serviceName val, identifierSet = ids\<rparr>) s1 = (Inr r, s')"
        by simp
      show ?thesis
      proof (cases es)
        case Nil
        with rest r1 Inr a registerIdentifiers_ids[of _ _ _ _ _ "[]"] show ?thesis by auto
      next
        case (Cons b es')
        with Cons.IH[OF rest] a show ?thesis by simp
      qed
    qed
  qed
qed

lemma constructor_success_entry:
  assumes "QueueHandler_constructor ro clock cc v w = (Inr h, w')"
  shows "\<exists>e. connectionHandler h = Some e
           \<and> identifierSet e = trimmedIdentifiers (cfg_identifierSet (snd (last (elements v))))
           \<and> serviceName e = cfg_serviceName (snd (last (elements v)))
           \<and> connection e = ro (queueConnector (snd (last (elements v))))
           \<and> servicesInfo h = ''registeredServices'' \<and> redisReadDate h = JUndefined"
proof -
  from assms have ne: "elements v \<noteq> []"
    by (auto simp: QueueHandler_constructor_def split: if_splits)
  from assms obtain r s where
    rs: "registerStores ro ''registeredServices'' (JStr (clock (ticks w))) (elements v) None
           (backend w) = (Inr r, s)"
    and h: "h = \<lparr>connectionHandler = r, servicesInfo = ''registeredServices'',
                 redisReadDate = JUndefined\<rparr>"
    by (auto simp: QueueHandler_constructor_def moment_now_def
             split: if_splits prod.splits sum.splits)
  from registerStores_entry[OF rs ne] h show ?thesis by auto
qed

text \<open>
  Claim C7, as amended. After a construction that produced an instance, the registered
  identifier list of the \<^verbatim>\<open>redis\<close> entry is the supplied list with blank entries skipped
  and every other entry trimmed, in the supplied order; as a set it is exactly the trimmed
  non-blank identifiers supplied. Nothing removes duplicates: an identifier supplied twice
  is registered twice.
\<close>

theorem constructor_registers_trimmed_in_order:
  "\<not> isl (fst (QueueHandler_constructor ro clock cc v w))
   \<Longrightarrow> registeredIdentifiers (fst (QueueHandler_constructor ro clock cc v w))
         = Some (trimmedIdentifiers (cfg_identifierSet (snd (last (elements v)))))
       \<and> set (trimmedIdentifiers (cfg_identifierSet (snd (last (elements v)))))
         = {trim i | i. i \<in> set (cfg_identifierSet (snd (last (elements v)))) \<and> trim i \<noteq> []}"
proof -
  assume ok: "\<not> isl (fst (QueueHandler_constructor ro clock cc v w))"
  obtain res w' where r: "QueueHandler_constructor ro clock cc v w = (res, w')"
    by (cases "QueueHandler_constructor ro clock cc v w")
  with ok obtain h where h: "res = Inr h" by (cases res) auto
  from constructor_success_entry[OF r[unfolded h]] r h
  have "registeredIdentifiers (fst (QueueHandler_constructor ro clock cc v w))
         = Some (trimmedIdentifiers (cfg_identifierSet (snd (last (elements v)))))"
    by auto
  moreover have "set (trimmedIdentifiers (cfg_identifierSet (snd (last (elements v)))))
         = {trim i | i. i \<in> set (cfg_identifierSet (snd (last (elements v)))) \<and> trim i \<noteq> []}"
    by (auto simp: trimmedIdentifiers_def)
  ultimately show ?thesis by simp
qed

theorem constructor_registers_trimmed_in_order_witness:
  "\<not> isl (fst (QueueHandler_constructor spec_redisOperation demo_clock demo_connectionConfig
            (demo_validation ['' orders '', ''  '', ''billing'']) demo_world))
   \<and> registeredIdentifiers (fst (QueueHandler_constructor spec_redisOperation demo_clock
            demo_connectionConfig (demo_validation ['' orders '', ''  '', ''billing'']) demo_world))
       = Some [''orders'', ''billing'']"
proof -
  have ok: "\<not> isl (fst (QueueHandler_constructor spec_redisOperation demo_clock
              demo_connectionConfig (demo_validation ['' orders '', ''  '', ''billing''])
              demo_world))"
    by (simp add: demo_defs)
  have "trimmedIdentifiers ['' orders '', ''  '', ''billing''] = [''orders'', ''billing'']"
    by (simp add: trimmedIdentifiers_def trim_def is_space_def)
  with constructor_registers_trimmed_in_order[OF ok] ok show ?thesis
    by (simp add: demo_validation_def)
qed

text \<open>
  Claim C7 as stated says that no identifier appears twice in the registered set. Supplying
  \<^verbatim>\<open>["orders", "orders"]\<close> registers \<^verbatim>\<open>orders\<close> twice.
\<close>

theorem constructor_keeps_duplicates:
  "registeredIdentifiers (fst (QueueHandler_constructor spec_redisOperation demo_clock
       demo_connectionConfig (demo_validation [''orders'', ''orders'']) demo_world))
     = Some [''orders'', ''orders'']"
  by (simp add: demo_defs)

section \<open>Facts about the concrete inputs and the logged adapter\<close>

lemma constructor_demo_handler:
  "fst (QueueHandler_constructor spec_redisOperation demo_clock demo_connectionConfig
     (demo_validation [''orders'']) demo_world) = Inr demo_handler"
  by (simp add: demo_defs demo_handler_def)

lemma constructor_demo_logged_handler:
  "fst (QueueHandler_constructor (loggedOperation spec_redisOperation) demo_clock
     demo_connectionConfig (demo_validation [''orders'']) (demo_logged_world empty_hashes))
   = Inr demo_logged_handler"
  by (simp add: demo_defs demo_logged_handler_def demo_logged_world_def loggedOperation_def
      logged_def)

lemma demo_request_props:
  "get_prop (demo_request v) ''identifier'' = JStr ''orders''"
  "get_prop (demo_request v) ''key'' = JStr ''o1''"
  "get_prop (demo_request v) ''value'' = v"
  "get_prop (demo_request v) ''store'' = JUndefined"
  by (simp_all add: demo_request_def)

lemma valid_demo_request:
  "validateQueueFields (demo_request v) (JFun 0) JUndefined = Inr (JBool False)"
  by (simp add: validateQueueFields_def demo_request_def trim_def is_space_def)

lemma demo_read_request_props:
  "get_prop demo_read_request ''identifier'' = JStr ''orders''"
  "get_prop demo_read_request ''key'' = JStr ''o1''"
  "get_prop demo_read_request ''store'' = JUndefined"
  by (simp_all add: demo_read_request_def)

lemma valid_demo_read_request:
  "validateQueueFields demo_read_request (JFun 0) JUndefined = Inr (JBool False)"
  by (simp add: validateQueueFields_def demo_read_request_def trim_def is_space_def)

lemma logged_simps:
  "getHashObject (logged a) grp fld (s, l) =
     (fst (getHashObject a grp fld s),
      (snd (getHashObject a grp fld s),
       l @ [GetObject grp fld (fst (fst (getHashObject a grp fld s)))
              (snd (fst (getHashObject a grp fld s)))]))"
  "setHashObject (logged a) grp fld v (s, l) =
     (fst (setHashObject a grp fld v s),
      (snd (setHashObject a grp fld v s),
       l @ [SetObject grp fld v (fst (fst (setHashObject a grp fld v s)))]))"
  "getHashKey (logged a) grp (s, l) =
     (fst (getHashKey a grp s),
      (snd (getHashKey a grp s), l @ [ListKeys grp (fst (fst (getHashKey a grp s)))]))"
  "deleteHashKey (logged a) grp fld (s, l) =
     (fst (deleteHashKey a grp fld s),
      (snd (deleteHashKey a grp fld s),
       l @ [DeleteKey grp fld (fst (fst (deleteHashKey a grp fld s)))
              (snd (fst (deleteHashKey a grp fld s)))]))"
  by (simp_all add: logged_def split: prod.splits)

section \<open>Insert: what is checked of the value\<close>

text \<open>
  Claim C5 as stated says that no field inside \<^verbatim>\<open>value\<close> determines whether Insert accepts
  it. A non-empty object value without \<^verbatim>\<open>targetType\<close> is rejected with the
  \<^verbatim>\<open>'Target type'\<close> message and nothing is written; the same value with a
  \<^verbatim>\<open>targetType\<close> array is accepted and written.
\<close>

theorem push_rejects_value_without_targetType:
  "pushToQueue demo_handler (demo_request (JObj [(''payload'', JStr ''x'')])) (JFun 0) demo_world
     = (Callback (JStr '''Target type' is either missing or not in the specified format'') JNull,
        demo_world)
   \<and> pushToQueue demo_handler
       (demo_request (JObj [(''payload'', JStr ''x''), (''targetType'', JArr [JStr ''email''])]))
       (JFun 0) demo_world
     = (Callback JNull JUndefined,
        demo_world\<lparr>backend := empty_hashes(''orders'' :=
          [(''o1'', JObj [(''payload'', JStr ''x''), (''targetType'', JArr [JStr ''email''])])])\<rparr>)"
  by (simp add: pushToQueue_def valid_demo_request pushFail_def pushDone_def pushLeg_def
      demo_handler_def storeExcludes_def firstError_def spec_adapter_def spec_setField_def
      demo_request_props empty_hashes_def demo_world_def)

text \<open>
  Claim C5, as amended. For a request that passes the field validation, Insert inspects
  \<^verbatim>\<open>value\<close> for emptiness (present, object-typed, non-empty) and for its property
  \<^verbatim>\<open>targetType\<close>, which must be a non-empty array: a value failing either check is
  reported through the callback and the world is left as it was. A value passing both is
  handed to the backend's \<^verbatim>\<open>setHashObject\<close> unchanged, and the outcome is what the
  backend reports: nothing else inside the value is looked at.
\<close>

theorem push_value_checks:
  assumes "validateQueueFields queueData callback JUndefined = Inr (JBool False)"
  shows "(\<not> valueAccepted (get_prop queueData ''value'') \<longrightarrow>
           (\<exists>msg. pushToQueue h queueData callback w = (Callback (JStr msg) JNull, w)))
       \<and> (valueAccepted (get_prop queueData ''value'') \<longrightarrow> connectionHandler h = Some val
           \<longrightarrow> \<not> storeExcludes (get_prop queueData ''store'') ''redis''
           \<longrightarrow> the_string (get_prop queueData ''identifier'') \<in> set (identifierSet val)
           \<longrightarrow> pushToQueue h queueData callback w
               = (Callback (firstError (fst (fst (setHashObject (connection val)
                     (the_string (get_prop queueData ''identifier''))
                     (the_string (get_prop queueData ''key''))
                     (get_prop queueData ''value'') (backend w))))) JUndefined,
                  w\<lparr>backend := snd (setHashObject (connection val)
                     (the_string (get_prop queueData ''identifier''))
                     (the_string (get_prop queueData ''key''))
                     (get_prop queueData ''value'') (backend w))\<rparr>))"
proof -
  from assms have cb: "callback \<noteq> JUndefined"
    by (auto simp: validateQueueFields_def split: if_splits)
  show ?thesis
  proof (intro conjI impI)
    assume "\<not> valueAccepted (get_prop queueData ''value'')"
    with assms cb show "\<exists>msg. pushToQueue h queueData callback w = (Callback (JStr msg) JNull, w)"
      by (auto simp: pushToQueue_def valueAccepted_def pushFail_def)
  next
    assume "valueAccepted (get_prop queueData ''value'')" "connectionHandler h = Some val"
      "\<not> storeExcludes (get_prop queueData ''store'') ''redis''"
      "the_string (get_prop queueData ''identifier'') \<in> set (identifierSet val)"
    with assms cb show "pushToQueue h queueData callback w
               = (Callback (firstError (fst (fst (setHashObject (connection val)
                     (the_string (get_prop queueData ''identifier''))
                     (the_string (get_prop queueData ''key''))
                     (get_prop queueData ''value'') (backend w))))) JUndefined,
                  w\<lparr>backend := snd (setHashObject (connection val)
                     (the_string (get_prop queueData ''identifier''))
                     (the_string (get_prop queueData ''key''))
                     (get_prop queueData ''value'') (backend w))\<rparr>)"
      by (simp add: pushToQueue_def valueAccepted_def pushDone_def pushLeg_def indexOf_absent
          split: prod.splits)
  qed
qed

theorem push_value_checks_witness:
  "validateQueueFields (demo_request (JObj [(''targetType'', JArr [JStr ''email''])])) (JFun 0)
      JUndefined = Inr (JBool False)
   \<and> valueAccepted (JObj [(''targetType'', JArr [JStr ''email''])])
   \<and> \<not> valueAccepted (JObj [(''payload'', JStr ''x'')])
   \<and> pushToQueue demo_handler (demo_request (JObj [(''targetType'', JArr [JStr ''email''])]))
        (JFun 0) demo_world
      = (Callback JNull JUndefined,
         demo_world\<lparr>backend := empty_hashes(''orders'' :=
           [(''o1'', JObj [(''targetType'', JArr [JStr ''email''])])])\<rparr>)
   \<and> (\<exists>msg. pushToQueue demo_handler (demo_request (JObj [(''payload'', JStr ''x'')]))
        (JFun 0) demo_world = (Callback (JStr msg) JNull, demo_world))"
proof -
  let ?v = "JObj [(''targetType'', JArr [JStr ''email''])]"
  let ?val = "\<lparr>connection = spec_adapter, serviceName = ''svc'', identifierSet = [''orders'']\<rparr>"
  have acc: "valueAccepted ?v" by (simp add: valueAccepted_def)
  have nacc: "\<not> valueAccepted (JObj [(''payload'', JStr ''x'')])" by (simp add: valueAccepted_def)
  have ch: "connectionHandler demo_handler = Some ?val" by (simp add: demo_handler_def)
  have incl: "\<not> storeExcludes (get_prop (demo_request ?v) ''store'') ''redis''"
    by (simp add: storeExcludes_def demo_request_props)
  have reg: "the_string (get_prop (demo_request ?v) ''identifier'') \<in> set (identifierSet ?val)"
    by (simp add: demo_request_props)
  have v: "get_prop (demo_request u) ''value'' = u" for u by (simp add: demo_request_props)
  from push_value_checks[OF valid_demo_request[of ?v], where h = demo_handler
      and val = ?val and w = demo_world] acc ch incl reg
  have "pushToQueue demo_handler (demo_request ?v) (JFun 0) demo_world
      = (Callback JNull JUndefined,
         demo_world\<lparr>backend := empty_hashes(''orders'' := [(''o1'', ?v)])\<rparr>)"
    by (simp add: demo_request_props spec_adapter_def spec_setField_def firstError_def
        empty_hashes_def demo_world_def)
  moreover from push_value_checks[OF valid_demo_request[of "JObj [(''payload'', JStr ''x'')]"],
      where h = demo_handler and w = demo_world] nacc
  have "\<exists>msg. pushToQueue demo_handler (demo_request (JObj [(''payload'', JStr ''x'')]))
        (JFun 0) demo_world = (Callback (JStr msg) JNull, demo_world)"
    by (simp add: v)
  ultimately show ?thesis using acc nacc valid_demo_request by simp
qed

section \<open>Insert and Delete without a callback\<close>

text \<open>
  Claim C2 says that Insert and Delete may be called without a callback and then still
  execute. In \<^verbatim>\<open>index.js\<close> both start with \<^verbatim>\<open>validateQueueFields\<close>, which throws
  when the callback is \<^verbatim>\<open>undefined\<close>: for every instance, request and world the call
  throws and the world is unchanged.
\<close>

theorem push_and_delete_without_callback_throw:
  "pushToQueue h queueData JUndefined w
     = (Throws (JStr ''Callback is expected and must be a function''), w)
   \<and> deleteKeyFromQueue h queueData JUndefined w
     = (Throws (JStr ''Callback is expected and must be a function''), w)"
  by (simp add: pushToQueue_def deleteKeyFromQueue_def validateQueueFields_def)

theorem push_and_delete_without_callback_throw_witness:
  "pushToQueue demo_handler (demo_request demo_value) JUndefined demo_world
     = (Throws (JStr ''Callback is expected and must be a function''), demo_world)
   \<and> deleteKeyFromQueue demo_handler demo_read_request JUndefined demo_world
     = (Throws (JStr ''Callback is expected and must be a function''), demo_world)"
  using push_and_delete_without_callback_throw[of demo_handler "demo_request demo_value" demo_world]
    push_and_delete_without_callback_throw[of demo_handler demo_read_request demo_world]
  by simp

section \<open>ReadOne: when the timestamp is written and when a result is reported\<close>

text \<open>
  Claim C10. Take a valid read request whose identifier is registered and whose store filter
  lets the backend take part, on an instance over any adapter (logged), and let
  \<open>(err, response)\<close> be what the adapter's \<^verbatim>\<open>getHashObject\<close> hands back. The
  reported result holds \<^verbatim>\<open>redis\<close> exactly when \<open>response\<close> is truthy and has a truthy
  \<^verbatim>\<open>length\<close>; the timestamp is written to the reserved group exactly when the lookup
  reported no error and \<open>response\<close> is truthy, whatever its \<^verbatim>\<open>length\<close>. So for a truthy
  response without \<^verbatim>\<open>length\<close>, such as the plain object Insert stores (see the
  instance below), the timestamp is written and no result is reported.
\<close>

theorem read_stamps_whenever_truthy_reports_only_with_length:
  assumes valid: "validateQueueFields readQueueData callback JUndefined = Inr (JBool False)"
    and ch: "connectionHandler h = Some val"
    and conn: "connection val = logged a"
    and incl: "\<not> storeExcludes (get_prop readQueueData ''store'') ''redis''"
    and reg: "the_string (get_prop readQueueData ''identifier'') \<in> set (identifierSet val)"
    and get: "getHashObject a (the_string (get_prop readQueueData ''identifier''))
                (the_string (get_prop readQueueData ''key'')) (fst (backend w))
              = ((err, response), s1)"
  shows "fst (readFromQueue h clock readQueueData callback w)
           = Callback (firstError err)
               (if truthy response \<and> truthy (get_prop response ''length'')
                then JObj [(''redis'', response)] else JObj [])
       \<and> calls (snd (readFromQueue h clock readQueueData callback w))
           = calls w
             @ GetObject (the_string (get_prop readQueueData ''identifier''))
                 (the_string (get_prop readQueueData ''key'')) err response
             # (if \<not> truthy err \<and> truthy response
                then [SetObject (servicesInfo h)
                        (serviceName val @ ''_'' @ the_string (get_prop readQueueData ''identifier''))
                        (readStamp h clock w)
                        (fst (fst (setHashObject a (servicesInfo h)
                           (serviceName val @ ''_''
                             @ the_string (get_prop readQueueData ''identifier''))
                           (readStamp h clock w) s1)))]
                else [])"
proof -
  obtain s l where b: "backend w = (s, l)" by (cases "backend w")
  from get b have g: "getHashObject a (the_string (get_prop readQueueData ''identifier''))
                (the_string (get_prop readQueueData ''key'')) s = ((err, response), s1)" by simp
  show ?thesis
    using valid ch conn incl reg
    by (simp add: readFromQueue_def readLeg_def indexOf_absent b g logged_simps calls_def
        firstError_def moment_now_def readStamp_def split: prod.splits)
qed

theorem read_stamps_whenever_truthy_reports_only_with_length_witness:
  "fst (readFromQueue demo_logged_handler demo_clock demo_read_request (JFun 0)
         (demo_logged_world demo_stored)) = Callback JNull (JObj [])
   \<and> calls (snd (readFromQueue demo_logged_handler demo_clock demo_read_request (JFun 0)
         (demo_logged_world demo_stored)))
     = [GetObject ''orders'' ''o1'' JNull demo_value,
        SetObject ''registeredServices'' ''svc_orders'' (JStr ''2024-01-01T00:00:00'') JNull]"
proof -
  let ?val = "\<lparr>connection = logged spec_adapter, serviceName = ''svc'',
               identifierSet = [''orders'']\<rparr>"
  have ch: "connectionHandler demo_logged_handler = Some ?val"
    by (simp add: demo_logged_handler_def)
  have conn: "connection ?val = logged spec_adapter" by simp
  have incl: "\<not> storeExcludes (get_prop demo_read_request ''store'') ''redis''"
    by (simp add: storeExcludes_def demo_read_request_props)
  have reg: "the_string (get_prop demo_read_request ''identifier'') \<in> set (identifierSet ?val)"
    by (simp add: demo_read_request_props)
  have get: "getHashObject spec_adapter (the_string (get_prop demo_read_request ''identifier''))
                (the_string (get_prop demo_read_request ''key''))
                (fst (backend (demo_logged_world demo_stored)))
              = ((JNull, demo_value), demo_stored)"
    by (simp add: demo_read_request_props spec_adapter_def spec_getField_def
        demo_logged_world_def demo_stored_def empty_hashes_def)
  from read_stamps_whenever_truthy_reports_only_with_length
         [OF valid_demo_read_request ch conn incl reg get, of demo_clock]
  show ?thesis
    by (simp add: demo_value_def firstError_def calls_def demo_logged_world_def
        demo_read_request_props demo_logged_handler_def readStamp_def demo_clock_def
        spec_adapter_def spec_setField_def)
qed

section \<open>Construction: which backend errors abort it\<close>

lemma getErrors_append: "getErrors (xs @ ys) = getErrors xs @ getErrors ys"
  by (induction xs rule: getErrors.induct) auto

lemma registerIdentifiers_errors:
  "registerIdentifiers (logged a) info sname date ids acc (s, l) = (res, (s', l'))
   \<Longrightarrow> \<exists>new. l' = l @ new \<and> firstLookupError new = thrownBy res"
proof (induction ids arbitrary: acc s l)
  case Nil
  then show ?case by (auto simp: firstLookupError_def)
next
  case (Cons i ids)
  show ?case
  proof (cases "trim i = []")
    case True
    with Cons.prems have "registerIdentifiers (logged a) info sname date ids acc (s, l) = (res, (s', l'))"
      by simp
    from Cons.IH[OF this] show ?thesis .
  next
    case False
    obtain err result s1 where g: "getHashObject a info (sname @ ''_'' @ trim i) s = ((err, result), s1)"
      by (cases "getHashObject a info (sname @ ''_'' @ trim i) s") auto
    let ?c = "GetObject info (sname @ ''_'' @ trim i) err result"
    show ?thesis
    proof (cases "truthy err")
      case True
      with Cons.prems False g have "res = Inl err" "l' = l @ [?c]"
        by (auto simp: logged_simps)
      with True show ?thesis by (auto simp: firstLookupError_def)
    next
      case nerr: False
      show ?thesis
      proof (cases "truthy result")
        case True
        with Cons.prems False g nerr
        have "registerIdentifiers (logged a) info sname date ids (acc @ [trim i]) (s1, l @ [?c]) = (res, (s', l'))"
          by (simp add: logged_simps)
        from Cons.IH[OF this] obtain new where "l' = (l @ [?c]) @ new" "firstLookupError new = thrownBy res"
          by blast
        with nerr show ?thesis by (auto simp: firstLookupError_def intro!: exI[of _ "?c # new"])
      next
        case nres: False
        obtain err2 status s2 where st: "setHashObject a info (sname @ ''_'' @ trim i) date s1 = ((err2, status), s2)"
          by (cases "setHashObject a info (sname @ ''_'' @ trim i) date s1") auto
        let ?d = "SetObject info (sname @ ''_'' @ trim i) date err2"
        from Cons.prems False g nerr nres st
        have "registerIdentifiers (logged a) info sname date ids (acc @ [trim i]) (s2, (l @ [?c]) @ [?d]) = (res, (s', l'))"
          by (simp add: logged_simps)
        from Cons.IH[OF this] obtain new where "l' = ((l @ [?c]) @ [?d]) @ new" "firstLookupError new = thrownBy res"
          by blast
        with nerr show ?thesis by (auto simp: firstLookupError_def intro!: exI[of _ "?c # ?d # new"])
      qed
    qed
  qed
qed

lemma firstLookupError_append:
  "firstLookupError (xs @ ys) = (case firstLookupError xs of Some e \<Rightarrow> Some e | None \<Rightarrow> firstLookupError ys)"
  by (auto simp: firstLookupError_def getErrors_append split: list.splits)

lemma registerStores_errors:
  "registerStores (loggedOperation ro) info date es cur (s, l) = (res, (s', l'))
   \<Longrightarrow> \<forall>e \<in> set es. toLowerCase (fst e) = ''redis''
   \<Longrightarrow> \<exists>new. l' = l @ new \<and> firstLookupError new = thrownBy res"
proof (induction es arbitrary: cur s l)
  case Nil
  then show ?case by (auto simp: firstLookupError_def)
next
  case (Cons x es)
  obtain name val where x: "x = (name, val)" by (cases x)
  with Cons.prems have rec: "toLowerCase name = ''redis''" by simp
  obtain r1 s1 l1 where r1:
    "registerIdentifiers (loggedOperation ro (queueConnector val)) info (cfg_serviceName val) date
       (cfg_identifierSet val) [] (s, l) = (r1, (s1, l1))"
    by (cases "registerIdentifiers (loggedOperation ro (queueConnector val)) info
                 (cfg_serviceName val) date (cfg_identifierSet val) [] (s, l)") auto
  from registerIdentifiers_errors[OF r1[unfolded loggedOperation_def]] obtain new1 where
    n1: "l1 = l @ new1" "firstLookupError new1 = thrownBy r1" by blast
  show ?case
  proof (cases r1)
    case (Inl e)
    with Cons.prems x rec r1 have "res = Inl e" "l' = l1" by auto
    with n1 Inl show ?thesis by auto
  next
    case (Inr ids)
    with Cons.prems x rec r1 have rest:
      "registerStores (loggedOperation ro) info date es
         (Some \<lparr>connection = loggedOperation ro (queueConnector val),
                serviceName = cfg_serviceName val, identifierSet = ids\<rparr>) (s1, l1) = (res, (s', l'))"
      by simp
    from Cons.prems have "\<forall>e \<in> set es. toLowerCase (fst e) = ''redis''" by simp
    from Cons.IH[OF rest this] obtain new where "l' = l1 @ new" "firstLookupError new = thrownBy res"
      by blast
    with n1 Inr show ?thesis by (auto simp: firstLookupError_append intro!: exI[of _ "new1 @ new"])
  qed
qed

lemma issueLookups_logged:
  "issueLookups (logged a) info sname ids acc pend (s, l) = ((ids', pend'), (s', l'))
   \<Longrightarrow> \<exists>pnew. pend' = pend @ pnew \<and> l' = l @ map (lookupCall info) pnew"
proof (induction ids arbitrary: acc pend s l)
  case Nil
  then show ?case by auto
next
  case (Cons i ids)
  show ?case
  proof (cases "trim i = []")
    case True
    with Cons.prems have "issueLookups (logged a) info sname ids acc pend (s, l) = ((ids', pend'), (s', l'))"
      by simp
    from Cons.IH[OF this] show ?thesis .
  next
    case False
    obtain err result s1 where g: "getHashObject a info (sname @ ''_'' @ trim i) s = ((err, result), s1)"
      by (cases "getHashObject a info (sname @ ''_'' @ trim i) s") auto
    let ?p = "(sname @ ''_'' @ trim i, err, result)"
    from Cons.prems False g
    have "issueLookups (logged a) info sname ids (acc @ [trim i]) (pend @ [?p])
            (s1, l @ [lookupCall info ?p]) = ((ids', pend'), (s', l'))"
      by (simp add: logged_simps)
    from Cons.IH[OF this] obtain pnew where "pend' = (pend @ [?p]) @ pnew"
      "l' = (l @ [lookupCall info ?p]) @ map (lookupCall info) pnew" by blast
    then show ?thesis by (intro exI[of _ "?p # pnew"]) simp
  qed
qed

lemma issueStores_logged:
  "issueStores (loggedOperation ro) info es cur pend (s, l) = ((thrown, handler, pend'), (s', l'))
   \<Longrightarrow> \<forall>e \<in> set es. toLowerCase (fst e) = ''redis''
   \<Longrightarrow> es \<noteq> [] \<or> (\<exists>entry c. cur = Some entry \<and> connection entry = logged c)
   \<Longrightarrow> thrown = None \<and> (\<exists>entry c. handler = Some entry \<and> connection entry = logged c)
       \<and> (\<exists>pnew. pend' = pend @ pnew \<and> l' = l @ map (lookupCall info) pnew)"
proof (induction es arbitrary: cur pend s l)
  case Nil
  then show ?case by auto
next
  case (Cons x es)
  obtain name val where x: "x = (name, val)" by (cases x)
  with Cons.prems have rec: "toLowerCase name = ''redis''" by simp
  obtain ids p1 s1 l1 where r1:
    "issueLookups (loggedOperation ro (queueConnector val)) info (cfg_serviceName val)
       (cfg_identifierSet val) [] pend (s, l) = ((ids, p1), (s1, l1))"
    by (cases "issueLookups (loggedOperation ro (queueConnector val)) info (cfg_serviceName val)
       (cfg_identifierSet val) [] pend (s, l)") auto
  from issueLookups_logged[OF r1[unfolded loggedOperation_def]] obtain pn1 where
    n1: "p1 = pend @ pn1" "l1 = l @ map (lookupCall info) pn1" by blast
  define e where "e = \<lparr>connection = loggedOperation ro (queueConnector val),
                serviceName = cfg_serviceName val, identifierSet = ids\<rparr>"
  from Cons.prems x rec r1 have rest:
    "issueStores (loggedOperation ro) info es (Some e) p1 (s1, l1) = ((thrown, handler, pend'), (s', l'))"
    by (simp add: e_def)
  from Cons.prems have all: "\<forall>e \<in> set es. toLowerCase (fst e) = ''redis''" by simp
  have "es \<noteq> [] \<or> (\<exists>entry c. Some e = Some entry \<and> connection entry = logged c)"
    by (auto simp: e_def loggedOperation_def)
  from Cons.IH[OF rest all this] obtain pnew where
    a: "thrown = None" "\<exists>entry c. handler = Some entry \<and> connection entry = logged c"
    and c: "pend' = p1 @ pnew" "l' = l1 @ map (lookupCall info) pnew"
    by blast
  show ?case using a c n1 by (auto intro!: exI[of _ "pn1 @ pnew"])
qed

lemma handleReplies_logged:
  "handleReplies (logged c) info date False pend (s, l) = (u, (s', l'))
   \<Longrightarrow> \<exists>new. l' = l @ new \<and> getErrors new = []
         \<and> u = firstLookupError (map (lookupCall info) pend)"
proof (induction pend arbitrary: s l)
  case Nil
  then show ?case by (auto simp: firstLookupError_def)
next
  case (Cons p pend)
  obtain fld err result where p: "p = (fld, err, result)" by (cases p)
  show ?case
  proof (cases "truthy err")
    case True
    with Cons.prems p show ?thesis by (auto simp: firstLookupError_def)
  next
    case nerr: False
    show ?thesis
    proof (cases "truthy result")
      case True
      with Cons.prems p nerr have "handleReplies (logged c) info date False pend (s, l) = (u, (s', l'))"
        by simp
      from Cons.IH[OF this] nerr p show ?thesis by (auto simp: firstLookupError_def)
    next
      case False
      obtain err2 status s2 where st: "setHashObject c info fld date s = ((err2, status), s2)"
        by (cases "setHashObject c info fld date s") auto
      let ?d = "SetObject info fld date err2"
      from Cons.prems p nerr False st
      have "handleReplies (logged c) info date False pend (s2, l @ [?d]) = (u, (s', l'))"
        by (simp add: logged_simps)
      from Cons.IH[OF this] obtain new where "l' = (l @ [?d]) @ new" "getErrors new = []"
        "u = firstLookupError (map (lookupCall info) pend)" by blast
      with nerr p show ?thesis by (auto simp: firstLookupError_def intro!: exI[of _ "?d # new"])
    qed
  qed
qed

text \<open>
  Claim C3, as amended. Take a configuration that passes the constructor's checks and names
  only recognised stores, over any adapter (logged), and let \<open>new\<close> be the backend calls the
  construction makes. Over an adapter that calls back before returning, \<^verbatim>\<open>new\<close> throws
  exactly when a registration-key lookup (\<^verbatim>\<open>getHashObject\<close>) reported an error, and what it
  throws is the first such error. Over an adapter that replies on a later tick, \<^verbatim>\<open>new\<close>
  returns the instance in every case, and the first lookup error is thrown afterwards from
  the callback, with no caller to catch it. Either way what is thrown depends on the lookups
  alone: an error of the first-seen timestamp write (\<^verbatim>\<open>setHashObject\<close>) throws nothing.
\<close>

theorem construction_throws_first_lookup_error:
  assumes cc: "truthy cc" "typeof cc = ''object''" "\<not> instanceofArray cc" "Object_keys_length cc \<noteq> 0"
    and v: "success v" "elements v \<noteq> []" "\<forall>e \<in> set (elements v). toLowerCase (fst e) = ''redis''"
  shows "(\<exists>new. calls (snd (QueueHandler_constructor (loggedOperation ro) clock cc v w)) = calls w @ new
            \<and> thrownBy (fst (QueueHandler_constructor (loggedOperation ro) clock cc v w))
                = firstLookupError new)
       \<and> (\<exists>new. calls (snd (QueueHandler_constructor_later (loggedOperation ro) clock cc v w)) = calls w @ new
            \<and> \<not> isl (produced (fst (QueueHandler_constructor_later (loggedOperation ro) clock cc v w)))
            \<and> uncaught (fst (QueueHandler_constructor_later (loggedOperation ro) clock cc v w))
                = firstLookupError new)"
proof
  obtain s l where b: "backend w = (s, l)" by (cases "backend w")
  obtain res s' l' where rs:
    "registerStores (loggedOperation ro) ''registeredServices'' (JStr (clock (ticks w)))
       (elements v) None (s, l) = (res, (s', l'))"
    by (cases "registerStores (loggedOperation ro) ''registeredServices'' (JStr (clock (ticks w)))
       (elements v) None (s, l)") auto
  from registerStores_errors[OF rs v(3)] obtain new where
    n: "l' = l @ new" "firstLookupError new = thrownBy res" by blast
  have "calls (snd (QueueHandler_constructor (loggedOperation ro) clock cc v w)) = l'"
    using cc v b rs by (cases res) (simp_all add: QueueHandler_constructor_def moment_now_def calls_def)
  moreover have "thrownBy (fst (QueueHandler_constructor (loggedOperation ro) clock cc v w)) = thrownBy res"
    using cc v b rs by (cases res) (simp_all add: QueueHandler_constructor_def moment_now_def)
  ultimately show "\<exists>new. calls (snd (QueueHandler_constructor (loggedOperation ro) clock cc v w)) = calls w @ new
            \<and> thrownBy (fst (QueueHandler_constructor (loggedOperation ro) clock cc v w))
                = firstLookupError new"
    using n b by (auto simp: calls_def)
next
  obtain s l where b: "backend w = (s, l)" by (cases "backend w")
  obtain thrown handler pend s1 l1 where iss:
    "issueStores (loggedOperation ro) ''registeredServices'' (elements v) None [] (s, l)
       = ((thrown, handler, pend), (s1, l1))"
    by (cases "issueStores (loggedOperation ro) ''registeredServices'' (elements v) None [] (s, l)") auto
  from v(2) have "elements v \<noteq> [] \<or> (\<exists>entry c. None = Some entry \<and> connection entry = logged c)"
    by simp
  from issueStores_logged[OF iss v(3) this] obtain entry c where
    t: "thrown = None" and h: "handler = Some entry" "connection entry = logged c"
    and l1: "l1 = l @ map (lookupCall ''registeredServices'') pend"
    by auto
  obtain u s2 l2 where hr:
    "handleReplies (logged c) ''registeredServices'' (JStr (clock (ticks w))) False pend (s1, l1)
       = (u, (s2, l2))"
    by (cases "handleReplies (logged c) ''registeredServices'' (JStr (clock (ticks w))) False pend (s1, l1)")
      auto
  from handleReplies_logged[OF hr] obtain new where
    n: "l2 = l1 @ new" "getErrors new = []"
       "u = firstLookupError (map (lookupCall ''registeredServices'') pend)"
    by blast
  have run: "QueueHandler_constructor_later (loggedOperation ro) clock cc v w
      = (\<lparr>produced = Inr \<lparr>connectionHandler = handler, servicesInfo = ''registeredServices'',
                            redisReadDate = JUndefined\<rparr>, uncaught = u\<rparr>,
         w\<lparr>ticks := Suc (ticks w), backend := (s2, l2)\<rparr>)"
    using cc v b iss t h hr by (simp add: QueueHandler_constructor_later_def moment_now_def)
  have "firstLookupError (map (lookupCall ''registeredServices'') pend @ new) = u"
    using n by (simp add: firstLookupError_append firstLookupError_def[of new] split: option.splits)
  then show "\<exists>new. calls (snd (QueueHandler_constructor_later (loggedOperation ro) clock cc v w)) = calls w @ new
            \<and> \<not> isl (produced (fst (QueueHandler_constructor_later (loggedOperation ro) clock cc v w)))
            \<and> uncaught (fst (QueueHandler_constructor_later (loggedOperation ro) clock cc v w))
                = firstLookupError new"
    unfolding run using b l1 n(1)
    by (intro exI[of _ "map (lookupCall ''registeredServices'') pend @ new"]) (simp add: calls_def)
qed

lemmas logged_demo_defs = QueueHandler_constructor_def demo_connectionConfig_def demo_validation_def
  demo_logged_world_def moment_now_def spec_adapter_def spec_getField_def
  spec_setField_def empty_hashes_def toLowerCase_def lower_char_def trim_def is_space_def
  demo_clock_def logged_simps calls_def

lemmas later_demo_defs = QueueHandler_constructor_later_def demo_connectionConfig_def demo_validation_def
  demo_logged_world_def moment_now_def spec_adapter_def spec_getField_def
  spec_setField_def empty_hashes_def toLowerCase_def lower_char_def trim_def is_space_def
  demo_clock_def logged_simps calls_def

text \<open>
  An adapter whose lookups report \<^verbatim>\<open>ECONNREFUSED\<close>: called back at once, the constructor
  throws that error; replied to later, it returns the instance and the error is thrown
  afterwards.
\<close>

theorem construction_throws_first_lookup_error_witness:
  "fst (QueueHandler_constructor (loggedOperation refusing_redisOperation) demo_clock demo_connectionConfig
         (demo_validation [''orders'']) (demo_logged_world empty_hashes))
     = Inl (JStr ''ECONNREFUSED'')
   \<and> \<not> isl (produced (fst (QueueHandler_constructor_later (loggedOperation refusing_redisOperation)
         demo_clock demo_connectionConfig (demo_validation [''orders''])
         (demo_logged_world empty_hashes))))
   \<and> uncaught (fst (QueueHandler_constructor_later (loggedOperation refusing_redisOperation)
         demo_clock demo_connectionConfig (demo_validation [''orders''])
         (demo_logged_world empty_hashes)))
     = Some (JStr ''ECONNREFUSED'')
   \<and> (\<exists>new. calls (snd (QueueHandler_constructor_later (loggedOperation refusing_redisOperation) demo_clock
                demo_connectionConfig (demo_validation [''orders'']) (demo_logged_world empty_hashes)))
              = calls (demo_logged_world empty_hashes) @ new
        \<and> firstLookupError new = Some (JStr ''ECONNREFUSED''))"
proof -
  have cc: "truthy demo_connectionConfig" "typeof demo_connectionConfig = ''object''"
    "\<not> instanceofArray demo_connectionConfig" "Object_keys_length demo_connectionConfig \<noteq> 0"
    by (simp_all add: demo_connectionConfig_def)
  have v: "success (demo_validation [''orders''])" "elements (demo_validation [''orders'']) \<noteq> []"
    "\<forall>e \<in> set (elements (demo_validation [''orders''])). toLowerCase (fst e) = ''redis''"
    by (simp_all add: demo_validation_def toLowerCase_redis)
  have a: "fst (QueueHandler_constructor (loggedOperation refusing_redisOperation) demo_clock demo_connectionConfig
         (demo_validation [''orders'']) (demo_logged_world empty_hashes))
     = Inl (JStr ''ECONNREFUSED'')"
    by (simp add: logged_demo_defs refusing_adapter_def refusing_redisOperation_def
        loggedOperation_def)
  have b: "uncaught (fst (QueueHandler_constructor_later (loggedOperation refusing_redisOperation)
         demo_clock demo_connectionConfig (demo_validation [''orders''])
         (demo_logged_world empty_hashes)))
     = Some (JStr ''ECONNREFUSED'')"
    by (simp add: later_demo_defs refusing_adapter_def refusing_redisOperation_def
        loggedOperation_def)
  from construction_throws_first_lookup_error[OF cc v, of refusing_redisOperation demo_clock
      "demo_logged_world empty_hashes"] a b
  show ?thesis by auto
qed

text \<open>
  Claim C3 as stated says that an error of the timestamp write is fatal too. With an adapter
  whose \<^verbatim>\<open>setHashObject\<close> reports \<^verbatim>\<open>READONLY\<close>, construction calls it, receives the
  error, and still produces an instance, and nothing is thrown later either: the second
  waterfall task passes \<^verbatim>\<open>null\<close> on in place of the error.
\<close>

theorem construction_survives_write_error:
  "\<not> isl (fst (QueueHandler_constructor (loggedOperation readonly_redisOperation) demo_clock
            demo_connectionConfig (demo_validation [''orders'']) (demo_logged_world empty_hashes)))
   \<and> calls (snd (QueueHandler_constructor (loggedOperation readonly_redisOperation) demo_clock
            demo_connectionConfig (demo_validation [''orders'']) (demo_logged_world empty_hashes)))
     = [GetObject ''registeredServices'' ''svc_orders'' JNull JNull,
        SetObject ''registeredServices'' ''svc_orders'' (JStr ''2024-01-01T00:00:00'')
          (JStr ''READONLY'')]
   \<and> \<not> isl (produced (fst (QueueHandler_constructor_later (loggedOperation readonly_redisOperation)
            demo_clock demo_connectionConfig (demo_validation [''orders''])
            (demo_logged_world empty_hashes))))
   \<and> uncaught (fst (QueueHandler_constructor_later (loggedOperation readonly_redisOperation)
            demo_clock demo_connectionConfig (demo_validation [''orders''])
            (demo_logged_world empty_hashes))) = None
   \<and> calls (snd (QueueHandler_constructor_later (loggedOperation readonly_redisOperation) demo_clock
            demo_connectionConfig (demo_validation [''orders'']) (demo_logged_world empty_hashes)))
     = [GetObject ''registeredServices'' ''svc_orders'' JNull JNull,
        SetObject ''registeredServices'' ''svc_orders'' (JStr ''2024-01-01T00:00:00'')
          (JStr ''READONLY'')]"
  by (simp add: logged_demo_defs later_demo_defs readonly_adapter_def readonly_redisOperation_def
      loggedOperation_def)

section \<open>Construction twice against the same backend\<close>

lemma keepsPresent_refl: "keepsPresent info s s"
  by (simp add: keepsPresent_def)

lemma keepsPresent_trans:
  "keepsPresent info s s1 \<Longrightarrow> keepsPresent info s1 s2 \<Longrightarrow> keepsPresent info s s2"
  by (auto simp: keepsPresent_def)

lemma stored_set:
  "stored (s(info := AList.update k v (s info))) info fld = (if fld = k then v else stored s info fld)"
  by (simp add: stored_def update_conv')

lemma keepsPresent_set:
  "\<not> truthy (stored s info k) \<Longrightarrow> keepsPresent info s (s(info := AList.update k v (s info)))"
  by (auto simp: keepsPresent_def stored_set)

lemma spec_get: "getHashObject spec_adapter grp fld s = ((JNull, stored s grp fld), s)"
  by (simp add: spec_adapter_def spec_getField_def stored_def)

lemma spec_set:
  "setHashObject spec_adapter grp fld v s = ((JNull, JStr ''OK''), s(grp := AList.update fld v (s grp)))"
  by (simp add: spec_adapter_def spec_setField_def)

lemma registerIdentifiers_spec:
  "registerIdentifiers spec_adapter info sname date ids acc s = (res, s')
   \<Longrightarrow> res = Inr (acc @ trimmedIdentifiers ids) \<and> keepsPresent info s s'
       \<and> (truthy date \<longrightarrow> (\<forall>i \<in> set ids. trim i \<noteq> [] \<longrightarrow> truthy (stored s' info (sname @ ''_'' @ trim i))))"
proof (induction ids arbitrary: acc s)
  case Nil
  then show ?case by (auto simp: trimmedIdentifiers_def keepsPresent_refl)
next
  case (Cons i ids)
  show ?case
  proof (cases "trim i = []")
    case True
    with Cons.prems have "registerIdentifiers spec_adapter info sname date ids acc s = (res, s')"
      by simp
    from Cons.IH[OF this] True show ?thesis by (simp add: trimmedIdentifiers_def)
  next
    case False
    let ?k = "sname @ ''_'' @ trim i"
    show ?thesis
    proof (cases "truthy (stored s info ?k)")
      case True
      with Cons.prems False
      have "registerIdentifiers spec_adapter info sname date ids (acc @ [trim i]) s = (res, s')"
        by (simp add: spec_get)
      from Cons.IH[OF this] have ih: "res = Inr ((acc @ [trim i]) @ trimmedIdentifiers ids)"
        "keepsPresent info s s'"
        "truthy date \<longrightarrow> (\<forall>i \<in> set ids. trim i \<noteq> [] \<longrightarrow> truthy (stored s' info (sname @ ''_'' @ trim i)))"
        by auto
      from ih(2) True have "truthy (stored s' info ?k)" by (simp add: keepsPresent_def)
      with ih False show ?thesis by (simp add: trimmedIdentifiers_def)
    next
      case nt: False
      define s1 where "s1 = s(info := AList.update ?k date (s info))"
      from Cons.prems False nt
      have "registerIdentifiers spec_adapter info sname date ids (acc @ [trim i]) s1 = (res, s')"
        by (simp add: spec_get spec_set s1_def)
      from Cons.IH[OF this] have ih: "res = Inr ((acc @ [trim i]) @ trimmedIdentifiers ids)"
        "keepsPresent info s1 s'"
        "truthy date \<longrightarrow> (\<forall>i \<in> set ids. trim i \<noteq> [] \<longrightarrow> truthy (stored s' info (sname @ ''_'' @ trim i)))"
        by auto
      have "keepsPresent info s s1" unfolding s1_def by (rule keepsPresent_set[OF nt])
      from keepsPresent_trans[OF this ih(2)] have k1: "keepsPresent info s s'" .
      have "truthy date \<longrightarrow> truthy (stored s' info ?k)"
      proof
        assume d: "truthy date"
        then have "truthy (stored s1 info ?k)" by (simp add: stored_set s1_def)
        moreover from d have "stored s1 info ?k = date" by (simp add: stored_set s1_def)
        ultimately show "truthy (stored s' info ?k)" using ih(2) by (simp add: keepsPresent_def)
      qed
      with ih k1 False show ?thesis by (simp add: trimmedIdentifiers_def)
    qed
  qed
qed

lemma registerIdentifiers_spec_present:
  "\<forall>i \<in> set ids. trim i \<noteq> [] \<longrightarrow> truthy (stored s info (sname @ ''_'' @ trim i))
   \<Longrightarrow> registerIdentifiers spec_adapter info sname date ids acc s
       = (Inr (acc @ trimmedIdentifiers ids), s)"
proof (induction ids arbitrary: acc)
  case Nil
  then show ?case by (simp add: trimmedIdentifiers_def)
next
  case (Cons i ids)
  then show ?case by (simp add: trimmedIdentifiers_def spec_get)
qed

lemma allPresent_keeps: "allPresent info es s \<Longrightarrow> keepsPresent info s s' \<Longrightarrow> allPresent info es s'"
  by (auto simp: allPresent_def keepsPresent_def)

lemma registerStores_spec:
  "registerStores (\<lambda>c. spec_adapter) info date es cur s = (res, s')
   \<Longrightarrow> keepsPresent info s s' \<and> (truthy date \<longrightarrow> \<not> isl res \<longrightarrow> allPresent info es s')"
proof (induction es arbitrary: cur s)
  case Nil
  then show ?case by (simp add: keepsPresent_refl allPresent_def)
next
  case (Cons x es)
  obtain name val where x: "x = (name, val)" by (cases x)
  show ?case
  proof (cases "toLowerCase name = ''redis''")
    case False
    with Cons.prems x show ?thesis by (auto simp: keepsPresent_refl)
  next
    case True
    obtain r1 s1 where r1:
      "registerIdentifiers spec_adapter info (cfg_serviceName val) date (cfg_identifierSet val) [] s = (r1, s1)"
      by (cases "registerIdentifiers spec_adapter info (cfg_serviceName val) date (cfg_identifierSet val) [] s")
    from registerIdentifiers_spec[OF r1] have f:
      "r1 = Inr (trimmedIdentifiers (cfg_identifierSet val))" "keepsPresent info s s1"
      "truthy date \<longrightarrow> (\<forall>i \<in> set (cfg_identifierSet val). trim i \<noteq> [] \<longrightarrow>
          truthy (stored s1 info (cfg_serviceName val @ ''_'' @ trim i)))"
      by auto
    from Cons.prems x True r1 f(1) have rest:
      "registerStores (\<lambda>c. spec_adapter) info date es
         (Some \<lparr>connection = spec_adapter, serviceName = cfg_serviceName val,
                identifierSet = trimmedIdentifiers (cfg_identifierSet val)\<rparr>) s1 = (res, s')"
      by simp
    from Cons.IH[OF rest] have ih: "keepsPresent info s1 s'"
      "truthy date \<longrightarrow> \<not> isl res \<longrightarrow> allPresent info es s'" by auto
    have "truthy date \<longrightarrow> \<not> isl res \<longrightarrow> allPresent info (x # es) s'"
    proof (intro impI)
      assume d: "truthy date" and ok: "\<not> isl res"
      from f(3) d have "allPresent info [x] s1" by (simp add: allPresent_def x)
      from allPresent_keeps[OF this ih(1)] ih(2) d ok show "allPresent info (x # es) s'"
        by (simp add: allPresent_def)
    qed
    with keepsPresent_trans[OF f(2) ih(1)] show ?thesis by simp
  qed
qed

lemma registerStores_spec_present:
  "registerStores (\<lambda>c. spec_adapter) info date es cur s = (Inr r, s1)
   \<Longrightarrow> allPresent info es s2
   \<Longrightarrow> registerStores (\<lambda>c. spec_adapter) info date2 es cur s2 = (Inr r, s2)"
proof (induction es arbitrary: cur s)
  case Nil
  then show ?case by simp
next
  case (Cons x es)
  obtain name val where x: "x = (name, val)" by (cases x)
  from Cons.prems(1) x have rec: "toLowerCase name = ''redis''" by (auto split: if_splits)
  obtain r1 s1' where r1:
    "registerIdentifiers spec_adapter info (cfg_serviceName val) date (cfg_identifierSet val) [] s = (r1, s1')"
    by (cases "registerIdentifiers spec_adapter info (cfg_serviceName val) date (cfg_identifierSet val) [] s")
  from registerIdentifiers_spec[OF r1] have f: "r1 = Inr (trimmedIdentifiers (cfg_identifierSet val))"
    by auto
  from Cons.prems(1) x rec r1 f have rest:
    "registerStores (\<lambda>c. spec_adapter) info date es
       (Some \<lparr>connection = spec_adapter, serviceName = cfg_serviceName val,
              identifierSet = trimmedIdentifiers (cfg_identifierSet val)\<rparr>) s1' = (Inr r, s1)"
    by simp
  from Cons.prems(2) x have p1: "\<forall>i \<in> set (cfg_identifierSet val). trim i \<noteq> [] \<longrightarrow>
      truthy (stored s2 info (cfg_serviceName val @ ''_'' @ trim i))"
    and p2: "allPresent info es s2"
    by (auto simp: allPresent_def)
  from registerIdentifiers_spec_present[OF p1, of date2 "[]"] Cons.IH[OF rest p2] x rec
  show ?case by simp
qed

lemma spec_redisOperation_const: "spec_redisOperation = (\<lambda>c. spec_adapter)"
  by (simp add: fun_eq_iff spec_redisOperation_def)

text \<open>
  Claim C6, over the adapter of the specification. A construction that produces an instance
  leaves every registration entry that was present (held a truthy value) as it was, and
  afterwards the registration key of every non-blank identifier is present. A second
  construction with the same configuration on the world the first one left, at whatever
  time, produces the same instance and leaves the whole backend unchanged: the timestamps
  written by the first construction are preserved. The timestamp of the first construction
  is a non-empty string, as every formatted date is.
\<close>

theorem second_construction_preserves_registration:
  assumes first: "QueueHandler_constructor spec_redisOperation clock cc v w = (Inr h1, w1)"
    and date: "clock (ticks w) \<noteq> []"
  shows "keepsPresent ''registeredServices'' (backend w) (backend w1)
       \<and> allPresent ''registeredServices'' (elements v) (backend w1)
       \<and> QueueHandler_constructor spec_redisOperation clock2 cc v w1
           = (Inr h1, w1\<lparr>ticks := Suc (ticks w1)\<rparr>)"
proof -
  from first have cc: "\<not> (\<not> truthy cc \<or> typeof cc \<noteq> ''object'' \<or> instanceofArray cc \<or> Object_keys_length cc = 0)"
    and v: "success v" "length (elements v) \<noteq> 0"
    by (auto simp: QueueHandler_constructor_def split: if_splits)
  from first cc v obtain r s where
    rs: "registerStores (\<lambda>c. spec_adapter) ''registeredServices'' (JStr (clock (ticks w)))
           (elements v) None (backend w) = (Inr r, s)"
    and h1: "h1 = \<lparr>connectionHandler = r, servicesInfo = ''registeredServices'', redisReadDate = JUndefined\<rparr>"
    and w1: "w1 = w\<lparr>ticks := Suc (ticks w), backend := s\<rparr>"
    by (auto simp: QueueHandler_constructor_def moment_now_def spec_redisOperation_const
             split: prod.splits sum.splits)
  from registerStores_spec[OF rs] date have k: "keepsPresent ''registeredServices'' (backend w) s"
    and a: "allPresent ''registeredServices'' (elements v) s" by auto
  from registerStores_spec_present[OF rs a, of "JStr (clock2 (ticks w1))"]
  have "registerStores (\<lambda>c. spec_adapter) ''registeredServices'' (JStr (clock2 (ticks w1)))
           (elements v) None s = (Inr r, s)" .
  with cc v h1 w1 have "QueueHandler_constructor spec_redisOperation clock2 cc v w1
           = (Inr h1, w1\<lparr>ticks := Suc (ticks w1)\<rparr>)"
    by (simp add: QueueHandler_constructor_def moment_now_def spec_redisOperation_const)
  with k a w1 show ?thesis by simp
qed

lemma first_construction_demo:
  "QueueHandler_constructor spec_redisOperation demo_clock demo_connectionConfig
     (demo_validation [''orders'']) demo_world = (Inr demo_handler, demo_registered)"
  by (simp add: demo_defs demo_handler_def demo_registered_def)

theorem second_construction_preserves_registration_witness:
  "QueueHandler_constructor spec_redisOperation demo_clock demo_connectionConfig
     (demo_validation [''orders'']) demo_world = (Inr demo_handler, demo_registered)
   \<and> demo_clock (ticks demo_world) \<noteq> []
   \<and> QueueHandler_constructor spec_redisOperation demo_clock demo_connectionConfig
       (demo_validation [''orders'']) demo_registered
     = (Inr demo_handler, demo_registered\<lparr>ticks := 2\<rparr>)
   \<and> stored (backend demo_registered) ''registeredServices'' ''svc_orders''
     = JStr ''2024-01-01T00:00:00''
   \<and> demo_clock (ticks demo_registered) = ''2024-01-01T00:00:01''"
proof -
  have d: "demo_clock (ticks demo_world) \<noteq> []" by (simp add: demo_clock_def)
  from second_construction_preserves_registration[OF first_construction_demo d, of demo_clock]
  have "QueueHandler_constructor spec_redisOperation demo_clock demo_connectionConfig
       (demo_validation [''orders'']) demo_registered
     = (Inr demo_handler, demo_registered\<lparr>ticks := 2\<rparr>)"
    by (simp add: demo_registered_def)
  then show ?thesis using first_construction_demo d
    by (simp add: demo_registered_def stored_def empty_hashes_def demo_clock_def)
qed

section \<open>Insert, ReadOne and Delete\<close>






section \<open>ListKeysAndValues: the timestamp override\<close>

lemma valid_is_object:
  "validateQueueFields q cb skip = Inr (JBool False) \<Longrightarrow> \<exists>kvs. q = JObj kvs"
  by (cases q) (auto simp: validateQueueFields_def split: if_splits)

lemma readFromQueue_override:
  assumes ch: "connectionHandler h = Some val" and conn: "connection val = logged a"
    and ov: "redisReadDate h = JStr T" "T \<noteq> []"
  shows "\<exists>new. calls (snd (readFromQueue h clock d cb w)) = calls w @ new
           \<and> list_all (stampedWith (servicesInfo h)
                 (serviceName val @ ''_'' @ the_string (get_prop d ''identifier'')) (JStr T)) new
           \<and> ticks (snd (readFromQueue h clock d cb w)) = ticks w"
proof -
  obtain s l where b: "backend w = (s, l)" by (cases "backend w")
  show ?thesis
    using ch conn ov b
    by (auto simp: readFromQueue_def readLeg_def logged_simps calls_def
        split: sum.splits prod.splits)
qed

lemma readEach_fired:
  "readEach clock q names h w acc (Some d) = (h', w', acc', d')
   \<Longrightarrow> d' = d \<and> redisReadDate h' = redisReadDate h"
proof (induction names arbitrary: w acc)
  case Nil
  then show ?case by simp
next
  case (Cons name names)
  from Cons.prems show ?case
    by (auto split: prod.splits dest!: Cons.IH)
qed

lemma readEach_clears:
  "readEach clock q names h w acc None = (h', w', acc', d') \<Longrightarrow> redisReadDate h' = JNull"
proof (induction names arbitrary: w acc)
  case Nil
  then show ?case by auto
next
  case (Cons name names)
  from Cons.prems show ?case
    by (auto split: prod.splits if_splits dest!: Cons.IH dest: readEach_fired)
qed


lemma truthy_firstError: "truthy (firstError e) = truthy e"
  by (simp add: firstError_def)

lemma readEach_override:
  assumes ch: "connectionHandler h = Some val" and conn: "connection val = logged a"
    and ov: "redisReadDate h = JStr T" "T \<noteq> []"
    and q: "q = JObj kvs"
  shows "readEach clock q names h w acc None = (h', w', acc', (e, handed)) \<Longrightarrow> \<not> truthy e
         \<Longrightarrow> \<exists>new. calls w' = calls w @ new
               \<and> list_all (stampedWith (servicesInfo h)
                     (serviceName val @ ''_'' @ the_string (get_prop q ''identifier'')) (JStr T)) new
               \<and> ticks w' = ticks w"
proof (induction names arbitrary: w acc)
  case Nil
  then show ?case by auto
next
  case (Cons name names)
  let ?d = "set_prop (set_prop (Object_assign_empty q) ''key'' (JStr name)) ''store''
              (JArr [JStr ''redis''])"
  obtain out w1 where r: "readFromQueue h clock ?d (JFun 0) w = (out, w1)"
    by (cases "readFromQueue h clock ?d (JFun 0) w")
  obtain err response where ca: "callback_args out = (err, response)"
    by (cases "callback_args out")
  define acc1 where "acc1 =
    (if truthy response \<and> truthy (get_prop response ''redis'')
        \<and> truthy (get_prop (get_prop response ''redis'') ''length'')
     then acc @ [set_prop ?d ''value'' (get_prop response ''redis'')] else acc)"
  have idd: "get_prop ?d ''identifier'' = get_prop q ''identifier''"
    by (simp add: q update_conv')
  from readFromQueue_override[OF ch conn ov, of clock ?d "JFun 0" w] r idd
  obtain new1 where n1: "calls w1 = calls w @ new1"
    "list_all (stampedWith (servicesInfo h)
       (serviceName val @ ''_'' @ the_string (get_prop q ''identifier'')) (JStr T)) new1"
    "ticks w1 = ticks w"
    by auto
  show ?case
  proof (cases "truthy err")
    case True
    with Cons.prems(1) r ca
    have "readEach clock q names (h\<lparr>redisReadDate := JNull\<rparr>) w1 acc1 (Some (err, acc1))
            = (h', w', acc', (e, handed))"
      by (simp add: acc1_def)
    from readEach_fired[OF this] have "e = err" by simp
    with True Cons.prems(2) show ?thesis by simp
  next
    case False
    with Cons.prems(1) r ca
    have "readEach clock q names h w1 acc1 None = (h', w', acc', (e, handed))"
      by (simp add: acc1_def)
    from Cons.IH[OF this Cons.prems(2)] obtain new where
      "calls w' = calls w1 @ new"
      "list_all (stampedWith (servicesInfo h)
         (serviceName val @ ''_'' @ the_string (get_prop q ''identifier'')) (JStr T)) new"
      "ticks w' = ticks w1"
      by blast
    with n1 show ?thesis by auto
  qed
qed

lemmas run_defs = readKeysAndValuesFromQueue_def readKeysAndValuesLeg_def readFromQueue_def
  readLeg_def validateQueueFields_def storeExcludes_def toLowerCase_def lower_char_def
  trim_def is_space_def logged_simps moment_now_def firstError_def demo_clock_def
  demo_logged_world_def empty_hashes_def calls_def spec_adapter_def spec_getField_def
  spec_setField_def spec_listFields_def demo_value_def demo_list_request_def

text \<open>
  Claim C8, as amended. Take an instance whose override slot is empty (as construction
  leaves it), over any adapter (logged), and a clock whose reading at the call is a non-empty
  string. After \<^verbatim>\<open>readKeysAndValuesFromQueue\<close> the slot is empty again, whether the batch
  completed, failed or never started. The clock is read for the override once, at the
  key-listing step; and in a batch that reports no error the clock is read at most that once
  and every write is the write of that one timestamp to the identifier's registration entry:
  every per-key ReadOne stamps the same timestamp.
\<close>

theorem batch_override_set_once_and_cleared:
  assumes slot: "\<not> truthy (redisReadDate h)"
    and ch: "connectionHandler h = Some val" and conn: "connection val = logged a"
    and T: "clock (ticks w) \<noteq> []"
  shows "\<not> truthy (redisReadDate (fst (snd (readKeysAndValuesFromQueue h clock q cb w))))
       \<and> (\<not> truthy (fst (callback_args (fst (readKeysAndValuesFromQueue h clock q cb w)))) \<longrightarrow>
            (\<exists>new. calls (snd (snd (readKeysAndValuesFromQueue h clock q cb w))) = calls w @ new
               \<and> list_all (stampedWith (servicesInfo h)
                     (serviceName val @ ''_'' @ the_string (get_prop q ''identifier''))
                     (JStr (clock (ticks w)))) new)
            \<and> ticks (snd (snd (readKeysAndValuesFromQueue h clock q cb w))) \<le> Suc (ticks w))"
proof (cases "validateQueueFields q cb (JObj [(''key'', JBool True)]) = Inr (JBool False)")
  case False
  then show ?thesis using slot
    by (auto simp: readKeysAndValuesFromQueue_def validateQueueFields_def split: sum.splits if_splits)
next
  case valid: True
  from valid_is_object[OF valid] obtain kvs where q: "q = JObj kvs" by blast
  let ?ident = "the_string (get_prop q ''identifier'')"
  let ?fld = "serviceName val @ ''_'' @ ?ident"
  obtain s l where b: "backend w = (s, l)" by (cases "backend w")
  have op: "readKeysAndValuesFromQueue h clock q cb w
      = (case readKeysAndValuesLeg h clock val q w of
           ((err, result), h1, w1) \<Rightarrow> (Callback (firstError err) result, h1, w1))"
    using valid ch by (simp add: readKeysAndValuesFromQueue_def)
  show ?thesis
  proof (cases "storeExcludes (get_prop q ''store'') ''redis''
                \<or> indexOf (identifierSet val) ?ident = - 1")
    case True
    then have "readKeysAndValuesLeg h clock val q w
        = ((if storeExcludes (get_prop q ''store'') ''redis'' then JNull else notRegistered ?ident,
            JObj []), h, w)"
      by (auto simp: readKeysAndValuesLeg_def)
    with op slot show ?thesis by simp
  next
    case False
    obtain err keyList s1 where g: "getHashKey a ?ident s = ((err, keyList), s1)"
      by (cases "getHashKey a ?ident s") auto
    let ?w1 = "w\<lparr>backend := (s1, l @ [ListKeys ?ident err]), ticks := Suc (ticks w)\<rparr>"
    let ?date = "JStr (clock (ticks w))"
    have c1: "calls ?w1 = calls w @ [ListKeys ?ident err]" by (simp add: calls_def b)
    show ?thesis
    proof (cases "truthy err \<or> keyList = None \<or> keyList = Some []")
      case True
      then have "readKeysAndValuesLeg h clock val q w
          = ((if truthy err then err else JNull, JObj []), h\<lparr>redisReadDate := JNull\<rparr>, ?w1)"
        using False g b conn
        by (auto simp: readKeysAndValuesLeg_def logged_simps moment_now_def)
      with op c1 show ?thesis by (auto simp: truthy_firstError)
    next
      case run: False
      then obtain names where kl: "keyList = Some names" "names \<noteq> []" and nerr: "\<not> truthy err"
        by (cases keyList) auto
      obtain h2 w2 acc e handed where re:
        "readEach clock q names (h\<lparr>redisReadDate := ?date\<rparr>) ?w1 [] None = (h2, w2, acc, (e, handed))"
        by (cases "readEach clock q names (h\<lparr>redisReadDate := ?date\<rparr>) ?w1 [] None") auto
      have leg: "readKeysAndValuesLeg h clock val q w
          = ((e, JObj [(''redis'', JArr handed)]), h2, w2)"
        using False g b conn kl nerr re
        by (simp add: readKeysAndValuesLeg_def logged_simps moment_now_def)
      from readEach_clears[OF re] have cl: "redisReadDate h2 = JNull" .
      have "\<not> truthy e \<longrightarrow>
            (\<exists>new. calls w2 = calls w @ new
               \<and> list_all (stampedWith (servicesInfo h) ?fld ?date) new)
            \<and> ticks w2 \<le> Suc (ticks w)"
      proof
        assume ne: "\<not> truthy e"
        have ch': "connectionHandler (h\<lparr>redisReadDate := ?date\<rparr>) = Some val" using ch by simp
        have ov': "redisReadDate (h\<lparr>redisReadDate := ?date\<rparr>) = JStr (clock (ticks w))" by simp
        from readEach_override[OF ch' conn ov' T q re ne] obtain new where
          "calls w2 = calls ?w1 @ new"
          "list_all (stampedWith (servicesInfo h) ?fld ?date) new"
          "ticks w2 = ticks ?w1"
          by auto
        with c1 show "(\<exists>new. calls w2 = calls w @ new
               \<and> list_all (stampedWith (servicesInfo h) ?fld ?date) new)
            \<and> ticks w2 \<le> Suc (ticks w)"
          by auto
      qed
      with op leg cl show ?thesis by (simp add: truthy_firstError)
    qed
  qed
qed

lemma demo_batch_run:
  "readKeysAndValuesFromQueue demo_logged_handler demo_clock demo_list_request (JFun 0)
         (demo_logged_world demo_stored_two)
   = (Callback JNull (JObj [(''redis'', JArr [])]),
      demo_logged_handler\<lparr>redisReadDate := JNull\<rparr>,
      \<lparr>backend = (demo_stored_two(''registeredServices'' :=
                     [(''svc_orders'', JStr ''2024-01-01T00:00:00'')]),
                  [ListKeys ''orders'' JNull,
                   GetObject ''orders'' ''o1'' JNull demo_value,
                   SetObject ''registeredServices'' ''svc_orders'' (JStr ''2024-01-01T00:00:00'') JNull,
                   GetObject ''orders'' ''o2'' JNull demo_value,
                   SetObject ''registeredServices'' ''svc_orders'' (JStr ''2024-01-01T00:00:00'') JNull]),
       ticks = 1\<rparr>)"
  by (simp add: run_defs demo_logged_handler_def demo_stored_two_def)


theorem batch_override_set_once_and_cleared_witness:
  "\<not> truthy (redisReadDate demo_logged_handler)
   \<and> demo_clock (ticks (demo_logged_world demo_stored_two)) = ''2024-01-01T00:00:00''
   \<and> fst (readKeysAndValuesFromQueue demo_logged_handler demo_clock demo_list_request (JFun 0)
         (demo_logged_world demo_stored_two)) = Callback JNull (JObj [(''redis'', JArr [])])
   \<and> redisReadDate (fst (snd (readKeysAndValuesFromQueue demo_logged_handler demo_clock
         demo_list_request (JFun 0) (demo_logged_world demo_stored_two)))) = JNull
   \<and> (\<exists>new. calls (snd (snd (readKeysAndValuesFromQueue demo_logged_handler demo_clock
                  demo_list_request (JFun 0) (demo_logged_world demo_stored_two))))
              = calls (demo_logged_world demo_stored_two) @ new
        \<and> list_all (stampedWith ''registeredServices'' ''svc_orders''
                      (JStr ''2024-01-01T00:00:00'')) new)
   \<and> writesTo ''registeredServices'' ''svc_orders''
        (calls (snd (snd (readKeysAndValuesFromQueue demo_logged_handler demo_clock
           demo_list_request (JFun 0) (demo_logged_world demo_stored_two)))))
     = [JStr ''2024-01-01T00:00:00'', JStr ''2024-01-01T00:00:00'']"
proof -
  let ?val = "\<lparr>connection = logged spec_adapter, serviceName = ''svc'',
               identifierSet = [''orders'']\<rparr>"
  have slot: "\<not> truthy (redisReadDate demo_logged_handler)"
    by (simp add: demo_logged_handler_def)
  have ch: "connectionHandler demo_logged_handler = Some ?val"
    by (simp add: demo_logged_handler_def)
  have conn: "connection ?val = logged spec_adapter" by simp
  have T: "demo_clock (ticks (demo_logged_world demo_stored_two)) \<noteq> []"
    by (simp add: demo_clock_def)
  have Tv: "demo_clock (ticks (demo_logged_world demo_stored_two)) = ''2024-01-01T00:00:00''"
    by (simp add: demo_clock_def demo_logged_world_def)
  from batch_override_set_once_and_cleared[where clock = demo_clock
      and w = "demo_logged_world demo_stored_two" and q = demo_list_request and cb = "JFun 0",
      OF slot ch conn T]
  show ?thesis
    unfolding demo_batch_run
    using slot Tv
    by (simp add: demo_logged_handler_def demo_list_request_def calls_def demo_logged_world_def)
qed

text \<open>
  Claim C8 as stated says that every per-key ReadOne of a batch stamps the same timestamp,
  also when the batch fails. \<^verbatim>\<open>async.each\<close> calls its final callback at the first error,
  which clears the slot, while the reads of the remaining keys still run: with keys
  \<^verbatim>\<open>o0\<close>, \<^verbatim>\<open>o1\<close>, \<^verbatim>\<open>o2\<close> and a lookup of \<^verbatim>\<open>o1\<close> that times out, the read of
  \<^verbatim>\<open>o0\<close> stamps the batch's timestamp and the read of \<^verbatim>\<open>o2\<close> a later one.
\<close>

theorem failed_batch_stamps_differ:
  "fst (readKeysAndValuesFromQueue demo_timeout_handler demo_clock demo_list_request (JFun 0)
         (demo_logged_world demo_stored_three))
     = Callback (JStr ''ETIMEDOUT'') (JObj [(''redis'', JArr [])])
   \<and> writesTo ''registeredServices'' ''svc_orders''
        (calls (snd (snd (readKeysAndValuesFromQueue demo_timeout_handler demo_clock
           demo_list_request (JFun 0) (demo_logged_world demo_stored_three)))))
     = [JStr ''2024-01-01T00:00:00'', JStr ''2024-01-01T00:00:01'']"
  by (simp add: run_defs demo_timeout_handler_def timeout_adapter_def demo_stored_three_def)

section \<open>ListKeysAndValues after inserts\<close>

lemma storeExcludes_redis: "\<not> storeExcludes (JArr [JStr ''redis'']) ''redis''"
  by (simp add: storeExcludes_def toLowerCase_redis)

lemma trim_nonempty: "trim k \<noteq> [] \<Longrightarrow> k \<noteq> []"
  by (auto simp: trim_def)

lemma spec_list: "getHashKey spec_adapter grp s = ((JNull, Some (map fst (s grp))), s)"
  by (simp add: spec_adapter_def spec_listFields_def)

lemma valid_identifier:
  "validateQueueFields q cb skip = Inr (JBool False) \<Longrightarrow> get_prop q ''identifier'' = JStr ident
   \<Longrightarrow> trim ident \<noteq> []"
  by (auto simp: validateQueueFields_def split: if_splits)

lemma read_in_batch:
  assumes ch: "connectionHandler h = Some val" and conn: "connection val = logged a"
    and ov: "redisReadDate h = JStr T" "T \<noteq> []"
    and q: "q = JObj kvs" and idq: "get_prop q ''identifier'' = JStr ident"
    and ti: "trim ident \<noteq> []" and reg: "ident \<in> set (identifierSet val)"
    and tk: "trim k \<noteq> []" and b: "backend w = (s, l)"
    and get: "getHashObject a ident k s = ((e, v), s1)" "\<not> truthy e" "truthy v"
      "truthy (get_prop v ''length'')"
    and set: "setHashObject a (servicesInfo h) (serviceName val @ ''_'' @ ident) (JStr T) s1
                = ((e2, st), s2)"
  shows "readFromQueue h clock
           (set_prop (set_prop (Object_assign_empty q) ''key'' (JStr k)) ''store''
              (JArr [JStr ''redis''])) (JFun 0) w
         = (Callback JNull (JObj [(''redis'', v)]),
            w\<lparr>backend := (s2, l @ [GetObject ident k e v,
                                    SetObject (servicesInfo h) (serviceName val @ ''_'' @ ident)
                                      (JStr T) e2])\<rparr>)"
proof -
  let ?d = "set_prop (set_prop (Object_assign_empty q) ''key'' (JStr k)) ''store''
              (JArr [JStr ''redis''])"
  have props: "get_prop ?d ''identifier'' = JStr ident" "get_prop ?d ''key'' = JStr k"
    "get_prop ?d ''store'' = JArr [JStr ''redis'']"
    using idq by (simp_all add: q update_conv')
  have obj: "truthy ?d" "typeof ?d = ''object''" "Object_keys_length ?d \<noteq> 0"
    by (simp_all add: q)
  have valid: "validateQueueFields ?d (JFun 0) JUndefined = Inr (JBool False)"
    using obj trim_nonempty[OF ti] trim_nonempty[OF tk] ti tk
    by (simp add: validateQueueFields_def props)
  show ?thesis
    using ch conn ov reg get set
    by (simp add: readFromQueue_def valid readLeg_def props storeExcludes_redis indexOf_absent
        b logged_simps firstError_def)
qed

lemma readEach_returned:
  assumes ch: "connectionHandler h = Some val" and conn: "connection val = logged a"
    and ov: "redisReadDate h = JStr T" "T \<noteq> []"
    and q: "q = JObj kvs" and idq: "get_prop q ''identifier'' = JStr ident"
    and ti: "trim ident \<noteq> []" and reg: "ident \<in> set (identifierSet val)"
    and stamp: "\<forall>s. ok s \<longrightarrow>
        ok (snd (setHashObject a (servicesInfo h) (serviceName val @ ''_'' @ ident) (JStr T) s))"
  shows "backend w = (s, l) \<Longrightarrow> ok s
    \<Longrightarrow> \<forall>k \<in> set names. trim k \<noteq> [] \<and> truthy (vals k) \<and> truthy (get_prop (vals k) ''length'')
    \<Longrightarrow> \<forall>k \<in> set names. \<forall>s. ok s \<longrightarrow>
          \<not> truthy (fst (fst (getHashObject a ident k s)))
          \<and> snd (fst (getHashObject a ident k s)) = vals k
          \<and> ok (snd (getHashObject a ident k s))
    \<Longrightarrow> \<exists>s' new. readEach clock q names h w acc None
            = (h\<lparr>redisReadDate := JNull\<rparr>, w\<lparr>backend := (s', l @ new)\<rparr>,
               acc @ map (\<lambda>k. batchEntry q k (vals k)) names,
               (JNull, acc @ map (\<lambda>k. batchEntry q k (vals k)) names))
          \<and> writesTo (servicesInfo h) (serviceName val @ ''_'' @ ident) new
              = replicate (length names) (JStr T)"
proof (induction names arbitrary: w s l acc)
  case Nil
  then have "w\<lparr>backend := (s, l)\<rparr> = w" by simp
  then show ?case by (auto intro!: exI[of _ s] exI[of _ "[]"])
next
  case (Cons k names)
  let ?fld = "serviceName val @ ''_'' @ ident"
  obtain e v s1 where g: "getHashObject a ident k s = ((e, v), s1)"
    by (cases "getHashObject a ident k s") auto
  from Cons.prems(2,4) g have ge: "\<not> truthy e" and gv: "v = vals k" and i1: "ok s1"
    by auto
  from Cons.prems(3) gv have tk: "trim k \<noteq> []" and tv: "truthy v"
    and tl: "truthy (get_prop v ''length'')" by auto
  obtain e2 st s2 where st: "setHashObject a (servicesInfo h) ?fld (JStr T) s1 = ((e2, st), s2)"
    by (cases "setHashObject a (servicesInfo h) ?fld (JStr T) s1") auto
  from stamp i1 st have i2: "ok s2" by (metis snd_conv)
  define l1 where "l1 = l @ [GetObject ident k e v, SetObject (servicesInfo h) ?fld (JStr T) e2]"
  define w1 where "w1 = w\<lparr>backend := (s2, l1)\<rparr>"
  have rd: "readFromQueue h clock
           (set_prop (set_prop (Object_assign_empty q) ''key'' (JStr k)) ''store''
              (JArr [JStr ''redis''])) (JFun 0) w
         = (Callback JNull (JObj [(''redis'', v)]), w1)"
    unfolding w1_def l1_def
    by (rule read_in_batch[OF ch conn ov q idq ti reg tk Cons.prems(1) g ge tv tl st])
  have step: "readEach clock q (k # names) h w acc None
                = readEach clock q names h w1 (acc @ [batchEntry q k v]) None"
    using tv tl by (simp add: rd batchEntry_def)
  have b1: "backend w1 = (s2, l1)" by (simp add: w1_def)
  from Cons.prems(3) have p3: "\<forall>k \<in> set names. trim k \<noteq> [] \<and> truthy (vals k)
      \<and> truthy (get_prop (vals k) ''length'')" by simp
  from Cons.prems(4) have p4: "\<forall>k \<in> set names. \<forall>s. ok s \<longrightarrow>
          \<not> truthy (fst (fst (getHashObject a ident k s)))
          \<and> snd (fst (getHashObject a ident k s)) = vals k
          \<and> ok (snd (getHashObject a ident k s))" by simp
  from Cons.IH[OF b1 i2 p3 p4, of "acc @ [batchEntry q k v]"] obtain s' new where
    ih: "readEach clock q names h w1 (acc @ [batchEntry q k v]) None
            = (h\<lparr>redisReadDate := JNull\<rparr>, w1\<lparr>backend := (s', l1 @ new)\<rparr>,
               (acc @ [batchEntry q k v]) @ map (\<lambda>k. batchEntry q k (vals k)) names,
               (JNull, (acc @ [batchEntry q k v]) @ map (\<lambda>k. batchEntry q k (vals k)) names))"
    and wr: "writesTo (servicesInfo h) ?fld new = replicate (length names) (JStr T)"
    by blast
  let ?new = "[GetObject ident k e v, SetObject (servicesInfo h) ?fld (JStr T) e2] @ new"
  have "readEach clock q (k # names) h w acc None
            = (h\<lparr>redisReadDate := JNull\<rparr>, w\<lparr>backend := (s', l @ ?new)\<rparr>,
               acc @ map (\<lambda>k. batchEntry q k (vals k)) (k # names),
               (JNull, acc @ map (\<lambda>k. batchEntry q k (vals k)) (k # names)))"
    unfolding step ih by (simp add: w1_def l1_def gv)
  moreover have "writesTo (servicesInfo h) ?fld ?new = replicate (length (k # names)) (JStr T)"
    using wr by simp
  ultimately show ?case by blast
qed

text \<open>
  Claim C4, as amended, for any adapter (logged). Let the identifier be registered, and let
  the adapter, as after \<open>n\<close> inserts, list the non-blank keys \<open>names\<close> of its group and hand
  back for each key \<open>k\<close>, without error, the value \<open>vals k\<close> in a non-empty form (truthy,
  with a truthy \<^verbatim>\<open>length\<close>); \<open>ok\<close> is any property of the backend's state that the listing
  establishes and that lookups and timestamp writes preserve, under which the lookups answer
  so. Then ListKeysAndValues reports no error and returns one entry per listed key, each key
  with its value; and it writes the registration timestamp once per key, \<open>n\<close> writes in
  all, every one carrying the single timestamp taken at the key-listing step.
\<close>

theorem list_after_inserts_returns_and_stamps_each_key:
  assumes slot: "\<not> truthy (redisReadDate h)"
    and ch: "connectionHandler h = Some val" and conn: "connection val = logged a"
    and valid: "validateQueueFields q cb (JObj [(''key'', JBool True)]) = Inr (JBool False)"
    and incl: "\<not> storeExcludes (get_prop q ''store'') ''redis''"
    and idq: "get_prop q ''identifier'' = JStr ident"
    and reg: "ident \<in> set (identifierSet val)"
    and list: "getHashKey a ident (fst (backend w)) = ((listErr, Some names), s1)"
      "\<not> truthy listErr" "names \<noteq> []" "ok s1"
    and keys: "\<forall>k \<in> set names. trim k \<noteq> [] \<and> truthy (vals k)
                 \<and> truthy (get_prop (vals k) ''length'')"
    and lookup: "\<forall>k \<in> set names. \<forall>s. ok s \<longrightarrow>
          \<not> truthy (fst (fst (getHashObject a ident k s)))
          \<and> snd (fst (getHashObject a ident k s)) = vals k
          \<and> ok (snd (getHashObject a ident k s))"
    and stamp: "\<forall>s. ok s \<longrightarrow>
        ok (snd (setHashObject a (servicesInfo h) (serviceName val @ ''_'' @ ident)
                    (JStr (clock (ticks w))) s))"
    and T: "clock (ticks w) \<noteq> []"
  shows "(\<exists>items. fst (readKeysAndValuesFromQueue h clock q cb w)
                    = Callback JNull (JObj [(''redis'', JArr items)])
            \<and> length items = length names
            \<and> set items = (\<lambda>k. batchEntry q k (vals k)) ` set names)
       \<and> writesTo (servicesInfo h) (serviceName val @ ''_'' @ ident)
            (drop (length (calls w)) (calls (snd (snd (readKeysAndValuesFromQueue h clock q cb w)))))
           = replicate (length names) (JStr (clock (ticks w)))"
proof -
  from valid_is_object[OF valid] obtain kvs where q: "q = JObj kvs" by blast
  from valid_identifier[OF valid idq] have ti: "trim ident \<noteq> []" .
  obtain s l where b: "backend w = (s, l)" by (cases "backend w")
  let ?T = "JStr (clock (ticks w))"
  let ?fld = "serviceName val @ ''_'' @ ident"
  let ?h1 = "h\<lparr>redisReadDate := ?T\<rparr>"
  let ?w1 = "w\<lparr>backend := (s1, l @ [ListKeys ident listErr]), ticks := Suc (ticks w)\<rparr>"
  let ?items = "map (\<lambda>k. batchEntry q k (vals k)) names"
  have ch1: "connectionHandler ?h1 = Some val" using ch by simp
  have ov1: "redisReadDate ?h1 = JStr (clock (ticks w))" by simp
  have b1: "backend ?w1 = (s1, l @ [ListKeys ident listErr])" by simp
  have stamp1: "\<forall>s. ok s \<longrightarrow>
        ok (snd (setHashObject a (servicesInfo ?h1) ?fld (JStr (clock (ticks w))) s))"
    using stamp by simp
  from readEach_returned[OF ch1 conn ov1 T q idq ti reg stamp1 b1 list(4) keys lookup,
      of clock "[]"]
  obtain s' new where re: "readEach clock q names ?h1 ?w1 [] None
            = (?h1\<lparr>redisReadDate := JNull\<rparr>,
               ?w1\<lparr>backend := (s', (l @ [ListKeys ident listErr]) @ new)\<rparr>,
               ?items, (JNull, ?items))"
    and wr: "writesTo (servicesInfo h) ?fld new = replicate (length names) ?T"
    by auto
  have leg: "readKeysAndValuesLeg h clock val q w
      = ((JNull, JObj [(''redis'', JArr ?items)]),
         ?h1\<lparr>redisReadDate := JNull\<rparr>,
         ?w1\<lparr>backend := (s', (l @ [ListKeys ident listErr]) @ new)\<rparr>)"
    using incl idq reg conn b list re
    by (simp add: readKeysAndValuesLeg_def indexOf_absent logged_simps moment_now_def)
  have op: "readKeysAndValuesFromQueue h clock q cb w
      = (Callback JNull (JObj [(''redis'', JArr ?items)]),
         ?h1\<lparr>redisReadDate := JNull\<rparr>,
         ?w1\<lparr>backend := (s', (l @ [ListKeys ident listErr]) @ new)\<rparr>)"
    using valid ch by (simp add: readKeysAndValuesFromQueue_def leg firstError_def)
  have "writesTo (servicesInfo h) ?fld
          (drop (length (calls w)) (calls (snd (snd (readKeysAndValuesFromQueue h clock q cb w)))))
           = replicate (length names) ?T"
    unfolding op using b wr by (simp add: calls_def)
  moreover have "\<exists>items. fst (readKeysAndValuesFromQueue h clock q cb w)
                    = Callback JNull (JObj [(''redis'', JArr items)])
            \<and> length items = length names
            \<and> set items = (\<lambda>k. batchEntry q k (vals k)) ` set names"
    unfolding op by (intro exI[of _ ?items]) simp
  ultimately show ?thesis by simp
qed

lemmas push_run_defs = pushToQueue_def pushLeg_def pushDone_def validateQueueFields_def
  storeExcludes_def trim_def is_space_def logged_simps firstError_def demo_logged_world_def
  empty_hashes_def spec_adapter_def spec_setField_def demo_insert_def demo_logged_handler_def

lemma valid_demo_list_request:
  "validateQueueFields demo_list_request (JFun 0) (JObj [(''key'', JBool True)]) = Inr (JBool False)"
  by (simp add: validateQueueFields_def demo_list_request_def trim_def is_space_def)

text \<open>
  The instance: the keys \<^verbatim>\<open>o1\<close> and \<^verbatim>\<open>o2\<close> inserted, through the instance, with a value
  that carries a \<^verbatim>\<open>length\<close>, over the adapter of the specification.
\<close>

lemma demo_after_inserts_with_length:
  "demo_after_inserts demo_value_with_length demo_value_with_length
     = \<lparr>backend = (empty_hashes(''orders'' :=
                     [(''o1'', demo_value_with_length), (''o2'', demo_value_with_length)]),
                  [SetObject ''orders'' ''o1'' demo_value_with_length JNull,
                   SetObject ''orders'' ''o2'' demo_value_with_length JNull]),
        ticks = 0\<rparr>"
  by (simp add: demo_after_inserts_def push_run_defs demo_value_with_length_def)

theorem list_after_inserts_returns_and_stamps_each_key_witness:
  "(\<exists>items. fst (readKeysAndValuesFromQueue demo_logged_handler demo_clock demo_list_request (JFun 0)
            (demo_after_inserts demo_value_with_length demo_value_with_length))
       = Callback JNull (JObj [(''redis'', JArr items)])
     \<and> length items = 2
     \<and> set items = {batchEntry demo_list_request ''o1'' demo_value_with_length,
                     batchEntry demo_list_request ''o2'' demo_value_with_length})
   \<and> writesTo ''registeredServices'' ''svc_orders''
        (drop (length (calls (demo_after_inserts demo_value_with_length demo_value_with_length)))
           (calls (snd (snd (readKeysAndValuesFromQueue demo_logged_handler demo_clock
              demo_list_request (JFun 0)
              (demo_after_inserts demo_value_with_length demo_value_with_length))))))
     = [JStr ''2024-01-01T00:00:00'', JStr ''2024-01-01T00:00:00'']"
proof -
  let ?val = "\<lparr>connection = logged spec_adapter, serviceName = ''svc'',
               identifierSet = [''orders'']\<rparr>"
  let ?W = "demo_after_inserts demo_value_with_length demo_value_with_length"
  let ?ps = "[(''o1'', demo_value_with_length), (''o2'', demo_value_with_length)]"
  let ?ok = "\<lambda>s::hashes. s ''orders'' = ?ps"
  have slot: "\<not> truthy (redisReadDate demo_logged_handler)"
    by (simp add: demo_logged_handler_def)
  have ch: "connectionHandler demo_logged_handler = Some ?val"
    by (simp add: demo_logged_handler_def)
  have conn: "connection ?val = logged spec_adapter" by simp
  have incl: "\<not> storeExcludes (get_prop demo_list_request ''store'') ''redis''"
    by (simp add: storeExcludes_def demo_list_request_def)
  have idq: "get_prop demo_list_request ''identifier'' = JStr ''orders''"
    by (simp add: demo_list_request_def)
  have reg: "''orders'' \<in> set (identifierSet ?val)" by simp
  have list: "getHashKey spec_adapter ''orders'' (fst (backend ?W))
               = ((JNull, Some [''o1'', ''o2'']), fst (backend ?W))"
    "\<not> truthy JNull" "[''o1'', ''o2''] \<noteq> []" "?ok (fst (backend ?W))"
    by (simp_all add: spec_list demo_after_inserts_with_length empty_hashes_def)
  have keys: "\<forall>k \<in> set [''o1'', ''o2'']. trim k \<noteq> [] \<and> truthy ((\<lambda>k. demo_value_with_length) k)
                 \<and> truthy (get_prop ((\<lambda>k. demo_value_with_length) k) ''length'')"
    by (simp add: trim_def is_space_def demo_value_with_length_def)
  have lookup: "\<forall>k \<in> set [''o1'', ''o2'']. \<forall>s. ?ok s \<longrightarrow>
          \<not> truthy (fst (fst (getHashObject spec_adapter ''orders'' k s)))
          \<and> snd (fst (getHashObject spec_adapter ''orders'' k s)) = (\<lambda>k. demo_value_with_length) k
          \<and> ?ok (snd (getHashObject spec_adapter ''orders'' k s))"
    by (simp add: spec_get stored_def)
  have stamp: "\<forall>s. ?ok s \<longrightarrow>
        ?ok (snd (setHashObject spec_adapter (servicesInfo demo_logged_handler)
                    (serviceName ?val @ ''_'' @ ''orders'')
                    (JStr (demo_clock (ticks ?W))) s))"
    by (simp add: spec_set demo_logged_handler_def)
  have T: "demo_clock (ticks ?W) \<noteq> []" by (simp add: demo_clock_def)
  have Tv: "demo_clock (ticks ?W) = ''2024-01-01T00:00:00''"
    by (simp add: demo_after_inserts_with_length demo_clock_def)
  from list_after_inserts_returns_and_stamps_each_key[where clock = demo_clock and w = ?W
      and q = demo_list_request and cb = "JFun 0" and ok = ?ok
      and vals = "\<lambda>k. demo_value_with_length",
      OF slot ch conn valid_demo_list_request incl idq reg list keys lookup stamp T]
  show ?thesis by (simp add: Tv demo_logged_handler_def numeral_2_eq_2)
qed

text \<open>
  Claim C4 as stated says that a single timestamp update is performed, not \<open>n\<close>. After the
  two inserts above, ListKeysAndValues writes the registration timestamp of \<^verbatim>\<open>orders\<close>
  twice, once per key.
\<close>

theorem list_after_inserts_stamps_once_per_key:
  "writesTo ''registeredServices'' ''svc_orders''
        (calls (snd (snd (readKeysAndValuesFromQueue demo_logged_handler demo_clock
            demo_list_request (JFun 0)
            (demo_after_inserts demo_value_with_length demo_value_with_length)))))
     = [JStr ''2024-01-01T00:00:00'', JStr ''2024-01-01T00:00:00'']"
  unfolding demo_after_inserts_with_length
  by (simp add: run_defs demo_logged_handler_def demo_value_with_length_def)

section \<open>An empty store filter\<close>

lemma invoke_function: "invoke (JFun n) err result = Callback err result"
  by (simp add: invoke_def)

lemma per_key_read_part000:
  assumes q: "qn = JObj kvs" and st: "get_prop qn ''store'' = JArr []"
  shows "\<exists>m. readFromQueue_part000 h clock (set_prop (Object_assign_empty qn) ''key'' (JStr name))
               (JFun 0) w = (Callback m JUndefined, w)
             \<and> truthy m \<and> (\<not> badIdentifier qn \<and> trim name \<noteq> [] \<longrightarrow> m = storeMessage)"
proof -
  let ?d = "set_prop (Object_assign_empty qn) ''key'' (JStr name)"
  have props: "get_prop ?d ''identifier'' = get_prop qn ''identifier''"
    "get_prop ?d ''key'' = JStr name" "get_prop ?d ''store'' = JArr []"
    using st by (simp_all add: q update_conv')
  have bs: "badStore ?d" by (simp add: badStore_def props)
  have bi: "badIdentifier ?d = badIdentifier qn" by (simp add: badIdentifier_def props)
  have bk: "trim name \<noteq> [] \<Longrightarrow> \<not> badKey ?d"
    by (auto simp: badKey_def props trim_def)
  have bq: "\<not> badQueueData ?d" by (simp add: badQueueData_def q)
  show ?thesis
    using bs bi bk bq
    by (auto simp: readFromQueue_part000_def invoke_function storeMessage_def)
qed

lemma readEach_part000_fired:
  assumes q: "qn = JObj kvs" and st: "get_prop qn ''store'' = JArr []"
  shows "readEach_part000 clock qn names h w acc (Some d) = (h, w, acc, d)"
proof (induction names)
  case Nil
  show ?case by simp
next
  case (Cons name names)
  from per_key_read_part000[OF q st, of h clock name w] obtain m where
    "readFromQueue_part000 h clock (set_prop (Object_assign_empty qn) ''key'' (JStr name))
               (JFun 0) w = (Callback m JUndefined, w)"
    by blast
  with Cons show ?case by simp
qed

lemma readEach_part000_first:
  assumes q: "qn = JObj kvs" and st: "get_prop qn ''store'' = JArr []"
    and id: "\<not> badIdentifier qn" and nm: "trim name \<noteq> []"
  shows "readEach_part000 clock qn (name # names) h w [] None
           = (h\<lparr>redisReadDate := JNull\<rparr>, w, [], (storeMessage, []))"
proof -
  from per_key_read_part000[OF q st, of h clock name w] id nm
  have r: "readFromQueue_part000 h clock (set_prop (Object_assign_empty qn) ''key'' (JStr name))
               (JFun 0) w = (Callback storeMessage JUndefined, w)"
    by auto
  have t: "truthy storeMessage" by (simp add: storeMessage_def)
  show ?thesis
    using r t by (simp add: readEach_part000_fired[OF q st])
qed


lemma not_bad_is_object:
  "\<not> badQueueData q \<Longrightarrow> \<not> badIdentifier q \<Longrightarrow> \<exists>kvs. q = JObj kvs"
  by (cases q) (auto simp: badQueueData_def badIdentifier_def)

text \<open>
  Claim C9. Let \<open>q\<close> be a request whose \<^verbatim>\<open>store\<close> is present and empty and whose other
  fields are valid. The validator of \<^verbatim>\<open>index.js\<close> reports it as the \<^verbatim>\<open>'Store'\<close>
  validation error, and so does the inline check of the earlier revision. The iteratee of
  the earlier revision, run on such a request, treats the empty array as no filter: it does
  what the iteratee of \<^verbatim>\<open>index.js\<close> does for a request without \<^verbatim>\<open>store\<close>. Both
  policies meet in one run of the earlier revision's \<^verbatim>\<open>readKeysAndValuesFromQueue\<close> on a
  request \<open>q0\<close> without \<^verbatim>\<open>store\<close>: the operation replaces the absent \<^verbatim>\<open>store\<close> by an
  empty array, the listing leg takes that as no filter and lists the keys, and the per-key
  read, handed a copy with the empty array, reports the validation error, which is what the
  operation returns.
\<close>

theorem empty_store_no_filter_and_validation_error:
  assumes q: "\<not> badQueueData q" "\<not> badIdentifier q" "\<not> badKey q"
      "get_prop q ''store'' = JArr []"
    and cb: "typeof cb = ''function''"
    and q': "get_prop q' ''store'' = JUndefined"
      "get_prop q' ''identifier'' = get_prop q ''identifier''"
      "get_prop q' ''key'' = get_prop q ''key''" "get_prop q' ''value'' = get_prop q ''value''"
    and q0: "\<not> badQueueData q0" "\<not> badIdentifier q0" "get_prop q0 ''store'' = JUndefined"
    and ch: "connectionHandler h = Some val" and conn: "connection val = logged a"
    and reg: "the_string (get_prop q0 ''identifier'') \<in> set (identifierSet val)"
    and list: "getHashKey a (the_string (get_prop q0 ''identifier'')) (fst (backend w))
                 = ((err, Some (name # names)), s1)" "\<not> truthy err" "trim name \<noteq> []"
  shows "validateQueueFields q cb JUndefined = Inr storeMessage
       \<and> readFromQueue_part000 h clock q cb w = (Callback storeMessage JUndefined, w)
       \<and> pushLeg_part000 val q s = pushLeg val q' s
       \<and> fst (readKeysAndValuesFromQueue_part000 h clock q0 cb w)
           = Callback storeMessage (JObj [(''redis'', JArr [])])
       \<and> calls (snd (snd (readKeysAndValuesFromQueue_part000 h clock q0 cb w)))
           = calls w @ [ListKeys (the_string (get_prop q0 ''identifier'')) err]"
proof -
  from cb have cbu: "cb \<noteq> JUndefined" by auto
  have A: "validateQueueFields q cb JUndefined = Inr storeMessage"
    using q cb cbu
    by (simp add: validateQueueFields_def badQueueData_def badIdentifier_def badKey_def
        storeMessage_def)
  have B: "readFromQueue_part000 h clock q cb w = (Callback storeMessage JUndefined, w)"
    using q cb by (simp add: readFromQueue_part000_def badStore_def invoke_def storeMessage_def)
  have C: "pushLeg_part000 val q s = pushLeg val q' s"
    using q(4) q' by (simp add: pushLeg_part000_def pushLeg_def storeExcludes_part000_def
        storeExcludes_def)
  from not_bad_is_object[OF q0(1,2)] obtain kvs where k: "q0 = JObj kvs" by blast
  let ?qn = "normalizeStore q0"
  let ?ident = "the_string (get_prop q0 ''identifier'')"
  have qn: "?qn = JObj (AList.update ''store'' (JArr []) kvs)"
    using q0(3) by (simp add: normalizeStore_def k)
  have st: "get_prop ?qn ''store'' = JArr []" by (simp add: qn update_conv')
  have idn: "get_prop ?qn ''identifier'' = get_prop q0 ''identifier''"
    unfolding qn by (simp add: k update_conv')
  have bi: "\<not> badIdentifier ?qn" using q0(2) by (simp add: badIdentifier_def idn)
  obtain s0 l where b: "backend w = (s0, l)" by (cases "backend w")
  let ?w1 = "w\<lparr>backend := (s1, l @ [ListKeys ?ident err]), ticks := Suc (ticks w)\<rparr>"
  have re: "readEach_part000 clock ?qn (name # names)
              (h\<lparr>redisReadDate := JStr (clock (ticks w))\<rparr>) ?w1 [] None
            = (h\<lparr>redisReadDate := JNull\<rparr>, ?w1, [], (storeMessage, []))"
    using readEach_part000_first[OF qn st bi list(3), of clock names
        "h\<lparr>redisReadDate := JStr (clock (ticks w))\<rparr>" ?w1]
    by simp
  have leg: "readKeysAndValuesLeg_part000 h clock val ?qn w
      = ((storeMessage, JObj [(''redis'', JArr [])]), h\<lparr>redisReadDate := JNull\<rparr>, ?w1)"
    using reg list b conn
    by (simp add: readKeysAndValuesLeg_part000_def st idn storeExcludes_part000_def
        indexOf_absent logged_simps moment_now_def re del: readEach_part000.simps)
  have bs: "\<not> badStore q0" using q0(3) by (simp add: badStore_def)
  have t: "truthy storeMessage" by (simp add: storeMessage_def)
  have D: "readKeysAndValuesFromQueue_part000 h clock q0 cb w
      = (Callback storeMessage (JObj [(''redis'', JArr [])]), h\<lparr>redisReadDate := JNull\<rparr>, ?w1)"
    using q0 bs cb cbu ch t
    by (simp add: readKeysAndValuesFromQueue_part000_def leg firstError_def)
  from A B C D b show ?thesis by (simp add: calls_def)
qed

theorem empty_store_no_filter_and_validation_error_witness:
  "validateQueueFields demo_empty_store_request (JFun 0) JUndefined = Inr storeMessage
   \<and> readFromQueue_part000 demo_logged_handler demo_clock demo_empty_store_request (JFun 0)
        (demo_logged_world demo_stored)
      = (Callback storeMessage JUndefined, demo_logged_world demo_stored)
   \<and> pushLeg_part000 \<lparr>connection = logged spec_adapter, serviceName = ''svc'',
                        identifierSet = [''orders'']\<rparr> demo_empty_store_request (empty_hashes, [])
      = pushLeg \<lparr>connection = logged spec_adapter, serviceName = ''svc'',
                 identifierSet = [''orders'']\<rparr> demo_read_request (empty_hashes, [])
   \<and> fst (readKeysAndValuesFromQueue_part000 demo_logged_handler demo_clock demo_list_request
            (JFun 0) (demo_logged_world demo_stored))
      = Callback storeMessage (JObj [(''redis'', JArr [])])
   \<and> calls (snd (snd (readKeysAndValuesFromQueue_part000 demo_logged_handler demo_clock
            demo_list_request (JFun 0) (demo_logged_world demo_stored))))
      = [ListKeys ''orders'' JNull]"
proof -
  let ?val = "\<lparr>connection = logged spec_adapter, serviceName = ''svc'',
               identifierSet = [''orders'']\<rparr>"
  have q: "\<not> badQueueData demo_empty_store_request" "\<not> badIdentifier demo_empty_store_request"
    "\<not> badKey demo_empty_store_request" "get_prop demo_empty_store_request ''store'' = JArr []"
    by (simp_all add: demo_empty_store_request_def badQueueData_def badIdentifier_def badKey_def
        trim_def is_space_def)
  have cb: "typeof (JFun 0) = ''function''" by simp
  have q': "get_prop demo_read_request ''store'' = JUndefined"
    "get_prop demo_read_request ''identifier'' = get_prop demo_empty_store_request ''identifier''"
    "get_prop demo_read_request ''key'' = get_prop demo_empty_store_request ''key''"
    "get_prop demo_read_request ''value'' = get_prop demo_empty_store_request ''value''"
    by (simp_all add: demo_read_request_def demo_empty_store_request_def)
  have q0: "\<not> badQueueData demo_list_request" "\<not> badIdentifier demo_list_request"
    "get_prop demo_list_request ''store'' = JUndefined"
    by (simp_all add: demo_list_request_def badQueueData_def badIdentifier_def trim_def is_space_def)
  have ch: "connectionHandler demo_logged_handler = Some ?val"
    by (simp add: demo_logged_handler_def)
  have conn: "connection ?val = logged spec_adapter" by simp
  have reg: "the_string (get_prop demo_list_request ''identifier'') \<in> set (identifierSet ?val)"
    by (simp add: demo_list_request_def)
  have list: "getHashKey spec_adapter (the_string (get_prop demo_list_request ''identifier''))
                (fst (backend (demo_logged_world demo_stored)))
              = ((JNull, Some [''o1'']), demo_stored)"
    "\<not> truthy JNull" "trim ''o1'' \<noteq> []"
    by (simp_all add: demo_list_request_def spec_adapter_def spec_listFields_def
        demo_logged_world_def demo_stored_def empty_hashes_def trim_def is_space_def)
  from empty_store_no_filter_and_validation_error[OF q cb q' q0 ch conn reg list,
      where clock = demo_clock and s = "(empty_hashes, [])"]
  show ?thesis
    by (simp add: calls_def demo_logged_world_def demo_list_request_def)
qed

end
